theory Spec2Isabelle
  imports Main
begin

section \<open>Data model: pandas frames as values\<close>

text \<open>
  The program \<^verbatim>\<open>data/process_data.py\<close> works on pandas data frames. A frame is
  modelled by its row labels (the pandas index), its column labels and its rows, one
  cell per column. A cell is a string, an integer or the missing value (NaN), which is
  what \<^verbatim>\<open>pd.read_csv\<close> produces for the files of this program. Strings are lists
  of code points below 256. Every column has a type, which pandas keeps also when the
  column has no cell: object for text, or one of the two numeric types.

  pandas allows repeated column labels; the model keeps them, and label-based
  selection returns every column that carries the label, as pandas does. The two
  frames that line 76 puts side by side have the same row labels, so the row labels
  play no part in the computation; they identify the rows that survive.
\<close>

datatype cell = Str string | Num int | NaN

datatype dtype = ObjectD | Int64D | Float64D

record frame =
  index :: "nat list"
  columns :: "string list"
  dtypes :: "dtype list"
  rows :: "cell list list"

text \<open>The Python exceptions the program can raise.\<close>

datatype py_error =
  AttributeError | IndexError | ValueError | OverflowError | KeyError
  | MergeError | FileNotFoundError

text \<open>Sequencing of fallible steps: the first exception ends the computation.\<close>

definition bind_err :: "py_error + 'a \<Rightarrow> ('a \<Rightarrow> py_error + 'b) \<Rightarrow> py_error + 'b" where
  "bind_err m f = (case m of Inl e \<Rightarrow> Inl e | Inr x \<Rightarrow> f x)"

fun map_err :: "('a \<Rightarrow> py_error + 'b) \<Rightarrow> 'a list \<Rightarrow> py_error + 'b list" where
  "map_err f [] = Inr []"
| "map_err f (x # xs) =
     bind_err (f x) (\<lambda>y. bind_err (map_err f xs) (\<lambda>ys. Inr (y # ys)))"

text \<open>A frame is well formed when every row has one label and one cell per column.\<close>

definition wf_frame :: "frame \<Rightarrow> bool" where
  "wf_frame f \<longleftrightarrow>
     length (index f) = length (rows f) \<and>
     list_all (\<lambda>r. length r = length (columns f)) (rows f)"

text \<open>
  \<^verbatim>\<open>df[label]\<close> for the cells of one row: the cells of every column labelled with
  one of the given labels, in column order.
\<close>

definition select_cells :: "string list \<Rightarrow> string list \<Rightarrow> cell list \<Rightarrow> cell list" where
  "select_cells cols labels r = map snd (filter (\<lambda>(c, v). c \<in> set labels) (zip cols r))"

definition column_values :: "frame \<Rightarrow> string \<Rightarrow> cell list list" where
  "column_values f label = map (select_cells (columns f) [label]) (rows f)"

section \<open>String operations\<close>

text \<open>Python's \<^verbatim>\<open>s.split(sep)\<close> for a separator of one character.\<close>

fun split_on :: "char \<Rightarrow> string \<Rightarrow> string list" where
  "split_on sep [] = [[]]"
| "split_on sep (c # cs) =
     (if c = sep then [] # split_on sep cs
      else (case split_on sep cs of
              [] \<Rightarrow> [[c]]
            | t # ts \<Rightarrow> (c # t) # ts))"

text \<open>
  Python's \<^verbatim>\<open>int(s)\<close> on a string, base 10: white space around the literal is
  ignored, one sign is allowed, and single underscores may stand between digits.
  The white space is tab, line feed, vertical tab, form feed, carriage return and
  space, and of the code points from 128 on the next-line character and the no-break
  space; the separators 28 to 31 are not ignored. A literal of more than 4300 digits
  is refused (the default of \<^verbatim>\<open>sys.get_int_max_str_digits()\<close>); leading zeros
  count, underscores do not. The result is \<open>None\<close> where Python raises
  \<^verbatim>\<open>ValueError\<close>.
\<close>

definition is_space :: "char \<Rightarrow> bool" where
  "is_space c \<longleftrightarrow> of_char c \<in> set [9, 10, 11, 12, 13, 32, 133, 160 :: nat]"

definition max_str_digits :: nat where
  "max_str_digits = 4300"

definition is_digit :: "char \<Rightarrow> bool" where
  "is_digit c \<longleftrightarrow> 48 \<le> (of_char c :: nat) \<and> (of_char c :: nat) \<le> 57"

definition digit_val :: "char \<Rightarrow> int" where
  "digit_val c = int (of_char c) - 48"

definition strip :: "string \<Rightarrow> string" where
  "strip s = rev (dropWhile is_space (rev (dropWhile is_space s)))"

fun parse_digits :: "int \<Rightarrow> nat \<Rightarrow> string \<Rightarrow> int option" where
  "parse_digits acc n [] = (if max_str_digits < n then None else Some acc)"
| "parse_digits acc n (c # cs) =
     (if is_digit c then parse_digits (10 * acc + digit_val c) (Suc n) cs
      else if c = CHR ''_'' then
        (case cs of
           [] \<Rightarrow> None
         | d # ds \<Rightarrow>
             if is_digit d then parse_digits (10 * acc + digit_val d) (Suc n) ds else None)
      else None)"

definition parse_unsigned :: "string \<Rightarrow> int option" where
  "parse_unsigned s =
     (case s of
        [] \<Rightarrow> None
      | c # cs \<Rightarrow> if is_digit c then parse_digits (digit_val c) 1 cs else None)"

definition py_int :: "string \<Rightarrow> int option" where
  "py_int s =
     (case strip s of
        [] \<Rightarrow> None
      | c # cs \<Rightarrow>
          if c = CHR ''+'' then parse_unsigned cs
          else if c = CHR ''-'' then map_option uminus (parse_unsigned cs)
          else parse_unsigned (c # cs))"

section \<open>The transformer: \<^verbatim>\<open>clean_data\<close>\<close>

subsection \<open>Line 41: \<^verbatim>\<open>df.categories.str.split(';', expand=True)\<close>\<close>

text \<open>
  \<^verbatim>\<open>df.categories\<close> is attribute access: it raises \<^verbatim>\<open>AttributeError\<close> when no
  column has the label; when several columns have it the result is a frame, which has
  no \<^verbatim>\<open>.str\<close>, and the same exception is raised.
\<close>

definition getattr_column :: "frame \<Rightarrow> string \<Rightarrow> py_error + cell list" where
  "getattr_column df label =
     (if count_list (columns df) label = 1 then Inr (concat (column_values df label))
      else Inl AttributeError)"

text \<open>The type of the column with a label; the first one when the label is repeated.\<close>

definition column_dtype :: "frame \<Rightarrow> string \<Rightarrow> dtype" where
  "column_dtype df label =
     (case filter (\<lambda>(c, d). c = label) (zip (columns df) (dtypes df)) of
        [] \<Rightarrow> ObjectD
      | (c, d) # _ \<Rightarrow> d)"

text \<open>
  The \<^verbatim>\<open>.str\<close> accessor exists on a series of object type only, and there only
  when the series holds a string or nothing but missing values (so also when it has
  no cell). A numeric series has no \<^verbatim>\<open>.str\<close>, with or without cells.
\<close>

definition is_Str :: "cell \<Rightarrow> bool" where
  "is_Str c = (case c of Str s \<Rightarrow> True | _ \<Rightarrow> False)"

definition is_NaN :: "cell \<Rightarrow> bool" where
  "is_NaN c = (case c of NaN \<Rightarrow> True | _ \<Rightarrow> False)"

definition str_accessor :: "dtype \<Rightarrow> cell list \<Rightarrow> py_error + cell list" where
  "str_accessor dt series =
     (if dt = ObjectD \<and> (list_all is_NaN series \<or> list_ex is_Str series) then Inr series
      else Inl AttributeError)"

text \<open>
  \<^verbatim>\<open>.str.split(sep, expand=True)\<close>: one row of tokens per cell, as wide as the
  longest row; a shorter row is filled with missing values. A cell that is no string
  counts as a row of one missing value and gives a row of missing values.
\<close>

definition cell_tokens :: "char \<Rightarrow> cell \<Rightarrow> string list" where
  "cell_tokens sep c = (case c of Str s \<Rightarrow> split_on sep s | _ \<Rightarrow> [])"

definition expand_width :: "char \<Rightarrow> cell list \<Rightarrow> nat" where
  "expand_width sep series =
     foldr max (map (\<lambda>c. if is_Str c then length (cell_tokens sep c) else 1) series) 0"

definition str_split_expand :: "char \<Rightarrow> cell list \<Rightarrow> string option list list" where
  "str_split_expand sep series =
     map (\<lambda>c. map Some (cell_tokens sep c) @
               replicate (expand_width sep series - length (cell_tokens sep c)) None)
       series"

subsection \<open>Lines 44 to 52: the column names, from the first row\<close>

text \<open>
  \<^verbatim>\<open>categories.iloc[0, :]\<close> raises \<^verbatim>\<open>IndexError\<close> on a frame without rows. The
  lambda calls \<^verbatim>\<open>x.split('-')\<close> on every entry of the first row, and a missing
  value has no such method.
\<close>

definition iloc0 :: "'a list list \<Rightarrow> py_error + 'a list" where
  "iloc0 rws = (case rws of [] \<Rightarrow> Inl IndexError | r # _ \<Rightarrow> Inr r)"

definition colname :: "string option \<Rightarrow> py_error + string" where
  "colname x =
     (case x of
        None \<Rightarrow> Inl AttributeError
      | Some s \<Rightarrow> Inr (hd (split_on CHR ''-'' s)))"

definition category_colnames :: "string option list \<Rightarrow> py_error + string list" where
  "category_colnames row = map_err colname row"

subsection \<open>Lines 55 to 60: the values, column by column\<close>

text \<open>\<^verbatim>\<open>.str.split('-').str[1]\<close>: the second field of the token, or a missing value.\<close>

definition token_value :: "string option \<Rightarrow> string option" where
  "token_value tok =
     (case tok of
        None \<Rightarrow> None
      | Some s \<Rightarrow> (case split_on CHR ''-'' s of _ # v # _ \<Rightarrow> Some v | _ \<Rightarrow> None))"

text \<open>
  \<^verbatim>\<open>.astype(int)\<close> on one entry: a missing value and a string that is no integer
  literal raise \<^verbatim>\<open>ValueError\<close>, an integer outside 64 bits raises
  \<^verbatim>\<open>OverflowError\<close>.
\<close>

definition astype_int :: "string option \<Rightarrow> py_error + int" where
  "astype_int v =
     (case v of
        None \<Rightarrow> Inl ValueError
      | Some s \<Rightarrow>
          (case py_int s of
             None \<Rightarrow> Inl ValueError
           | Some n \<Rightarrow>
               if - (2 ^ 63) \<le> n \<and> n < 2 ^ 63 then Inr n else Inl OverflowError))"

definition decode_token :: "string option \<Rightarrow> py_error + int" where
  "decode_token tok = astype_int (token_value tok)"

text \<open>
  One turn of the loop. \<^verbatim>\<open>categories[column]\<close> is a frame when the label is
  repeated, and a frame has no \<^verbatim>\<open>.str\<close>.
\<close>

definition convert_column ::
  "string list \<Rightarrow> string \<times> string option list \<Rightarrow> py_error + string \<times> int list" where
  "convert_column names lc =
     (case lc of (label, col) \<Rightarrow>
        if count_list names label \<noteq> 1 then Inl AttributeError
        else bind_err (map_err decode_token col) (\<lambda>vs. Inr (label, vs)))"

definition columns_of :: "nat \<Rightarrow> 'a list list \<Rightarrow> 'a list list" where
  "columns_of width rws = map (\<lambda>j. map (\<lambda>r. r ! j) rws) [0..<width]"

text \<open>
  Lines 41 to 60 after the accessor: the decoded category frame, as labelled columns.
\<close>

definition decode_categories :: "cell list \<Rightarrow> py_error + (string \<times> int list) list" where
  "decode_categories series =
     (let categories = str_split_expand CHR '';'' series in
      bind_err (iloc0 categories) (\<lambda>row.
      bind_err (category_colnames row) (\<lambda>names.
        map_err (convert_column names)
          (zip names (columns_of (length row) categories)))))"

subsection \<open>Lines 63 to 70: clipping and the columns of one value\<close>

definition clip :: "int \<Rightarrow> int \<Rightarrow> int \<Rightarrow> int" where
  "clip lo hi x = min (max x lo) hi"

definition clip_columns :: "(string \<times> int list) list \<Rightarrow> (string \<times> int list) list" where
  "clip_columns categories = map (\<lambda>(label, vs). (label, map (clip 0 1) vs)) categories"

definition one_val_cols :: "(string \<times> int list) list \<Rightarrow> string list" where
  "one_val_cols categories =
     map fst (filter (\<lambda>(label, vs). length (remdups vs) = 1) categories)"

definition drop_labels ::
  "string list \<Rightarrow> (string \<times> int list) list \<Rightarrow> (string \<times> int list) list" where
  "drop_labels labels categories = filter (\<lambda>(label, vs). label \<notin> set labels) categories"

subsection \<open>Lines 73 to 79: replacing the column, removing duplicates\<close>

text \<open>
  \<^verbatim>\<open>df.drop(label, axis=1, inplace=True)\<close> changes the frame of the caller: every
  column with the label goes, with its type.
\<close>

definition drop_cells :: "string \<Rightarrow> string list \<Rightarrow> cell list \<Rightarrow> cell list" where
  "drop_cells label cols r = map snd (filter (\<lambda>(c, v). c \<noteq> label) (zip cols r))"

definition drop_column :: "string \<Rightarrow> frame \<Rightarrow> frame" where
  "drop_column label df =
     df\<lparr>columns := filter (\<lambda>c. c \<noteq> label) (columns df),
        dtypes := map snd (filter (\<lambda>(c, d). c \<noteq> label) (zip (columns df) (dtypes df))),
        rows := map (drop_cells label (columns df)) (rows df)\<rparr>"

text \<open>
  \<^verbatim>\<open>pd.concat([df, categories], axis=1)\<close>: both frames have the same row labels,
  so row \<open>i\<close> of the result is row \<open>i\<close> of the one followed by row \<open>i\<close> of the other.
  The category columns are integer columns since line 60.
\<close>

definition concat_columns :: "frame \<Rightarrow> (string \<times> int list) list \<Rightarrow> frame" where
  "concat_columns df categories =
     df\<lparr>columns := columns df @ map fst categories,
        dtypes := dtypes df @ map (\<lambda>lv. Int64D) categories,
        rows := map (\<lambda>(r, i). r @ map (\<lambda>(label, vs). Num (vs ! i)) categories)
                  (zip (rows df) [0..<length (rows df)])\<rparr>"

text \<open>
  \<^verbatim>\<open>df.drop_duplicates(subset=labels)\<close>: a frame without rows or without columns
  is returned as it is; a label that is no column raises \<^verbatim>\<open>KeyError\<close>; otherwise
  a row goes when an earlier row has the same cells in the columns that carry one of
  the labels. Missing values count as equal to each other.
\<close>

fun keep_first :: "('a \<Rightarrow> 'k) \<Rightarrow> 'k list \<Rightarrow> 'a list \<Rightarrow> 'a list" where
  "keep_first key seen [] = []"
| "keep_first key seen (x # xs) =
     (if key x \<in> set seen then keep_first key seen xs
      else x # keep_first key (key x # seen) xs)"

definition drop_duplicates :: "string list \<Rightarrow> frame \<Rightarrow> py_error + frame" where
  "drop_duplicates labels df =
     (if columns df = [] \<or> index df = [] then Inr df
      else if \<not> set labels \<subseteq> set (columns df) then Inl KeyError
      else
        let kept = keep_first (\<lambda>(i, r). select_cells (columns df) labels r) []
                     (zip (index df) (rows df))
        in Inr (df\<lparr>index := map fst kept, rows := map snd kept\<rparr>))"

subsection \<open>The function\<close>

text \<open>
  The result is a pair: the frame of the caller after the call (line 73 changes it in
  place), and what the call returns or raises.
\<close>

definition category_frame :: "frame \<Rightarrow> py_error + (string \<times> int list) list" where
  "category_frame df =
     bind_err (getattr_column df ''categories'') (\<lambda>series.
     bind_err (str_accessor (column_dtype df ''categories'') series) (\<lambda>series.
     bind_err (decode_categories series) (\<lambda>categories.
       Inr (clip_columns categories))))"

definition drop_one_val_cols :: "(string \<times> int list) list \<Rightarrow> (string \<times> int list) list" where
  "drop_one_val_cols categories = drop_labels (one_val_cols categories) categories"

definition clean_data :: "frame \<Rightarrow> frame \<times> (py_error + frame)" where
  "clean_data df =
     (case category_frame df of
        Inl e \<Rightarrow> (df, Inl e)
      | Inr categories \<Rightarrow>
          let categories = drop_one_val_cols categories;
              df1 = drop_column ''categories'' df;
              df2 = concat_columns df1 categories
          in (df1, drop_duplicates [''message'', ''original''] df2))"

section \<open>The loader, the sink and the entry point\<close>

text \<open>
  Reading a file and writing a database table are done by pandas and SQLAlchemy. They
  are parameters of the model: \<open>read_csv path\<close> gives the frame pandas reads from
  the path in the current state of the outside, or the exception it raises, and
  \<open>to_sql\<close> gives the outside after the write. The state of a run holds what was
  printed, the calls made to the two, and the outside.
\<close>

datatype event = ReadCsv string | ToSql string string

record 'e world =
  stdout :: "string list"
  calls :: "event list"
  outside :: 'e

definition print_line :: "string \<Rightarrow> 'e world \<Rightarrow> 'e world" where
  "print_line s w = w\<lparr>stdout := stdout w @ [s]\<rparr>"

subsection \<open>Line 26: \<^verbatim>\<open>messages.merge(categories)\<close>\<close>

text \<open>
  The join is on the labels both frames have (\<^verbatim>\<open>MergeError\<close> when there is
  none), inner, in the order of the left rows; missing keys match each other. A key
  column of strings does not merge with a numeric one (\<^verbatim>\<open>ValueError\<close>) unless one
  of the two is empty. The result has fresh row labels, and its columns keep their
  types. Neither pandas nor the
  program checks the number of rows of the result, and nothing is printed or warned.
\<close>

definition is_Num :: "cell \<Rightarrow> bool" where
  "is_Num c = (case c of Num n \<Rightarrow> True | _ \<Rightarrow> False)"

definition string_like :: "cell list \<Rightarrow> bool" where
  "string_like col \<longleftrightarrow> list_ex is_Str col \<and> \<not> list_ex is_Num col"

definition numeric :: "cell list \<Rightarrow> bool" where
  "numeric col \<longleftrightarrow> col \<noteq> [] \<and> \<not> list_ex is_Str col"

definition incompatible_keys :: "cell list \<Rightarrow> cell list \<Rightarrow> bool" where
  "incompatible_keys lk rk \<longleftrightarrow>
     lk \<noteq> [] \<and> rk \<noteq> [] \<and>
     (string_like lk \<and> numeric rk \<or> numeric lk \<and> string_like rk)"

definition join_key :: "string list \<Rightarrow> string list \<Rightarrow> cell list \<Rightarrow> cell list list" where
  "join_key common cols r = map (\<lambda>c. select_cells cols [c] r) common"

definition merge :: "frame \<Rightarrow> frame \<Rightarrow> py_error + frame" where
  "merge left right =
     (let common = filter (\<lambda>c. c \<in> set (columns right)) (columns left) in
      if common = [] then Inl MergeError
      else if list_ex (\<lambda>c. incompatible_keys (concat (column_values left c))
                             (concat (column_values right c))) common
      then Inl ValueError
      else
        let other = filter (\<lambda>c. c \<notin> set common) (columns right);
            rws = concat (map (\<lambda>l.
                    map (\<lambda>r. l @ select_cells (columns right) other r)
                      (filter (\<lambda>r. join_key common (columns right) r =
                                     join_key common (columns left) l) (rows right)))
                    (rows left))
        in Inr \<lparr>index = [0..<length rws], columns = columns left @ other,
                dtypes = dtypes left @
                  map snd (filter (\<lambda>(c, d). c \<notin> set common)
                             (zip (columns right) (dtypes right))),
                rows = rws\<rparr>)"

subsection \<open>\<^verbatim>\<open>load_data\<close>, \<^verbatim>\<open>save_data\<close> and \<^verbatim>\<open>main\<close>\<close>

definition load_data ::
  "(string \<Rightarrow> 'e \<Rightarrow> py_error + frame) \<Rightarrow> string \<Rightarrow> string \<Rightarrow> 'e world
     \<Rightarrow> 'e world \<times> (py_error + frame)" where
  "load_data read_csv messages_filepath categories_filepath w =
     (let w = w\<lparr>calls := calls w @ [ReadCsv messages_filepath]\<rparr> in
      case read_csv messages_filepath (outside w) of
        Inl e \<Rightarrow> (w, Inl e)
      | Inr messages \<Rightarrow>
          let w = w\<lparr>calls := calls w @ [ReadCsv categories_filepath]\<rparr> in
          (case read_csv categories_filepath (outside w) of
             Inl e \<Rightarrow> (w, Inl e)
           | Inr categories \<Rightarrow> (w, merge messages categories)))"

text \<open>
  \<^verbatim>\<open>df.to_sql('DisasterResponse', engine, index=False, if_exists='replace')\<close>, the
  engine made from the name \<^verbatim>\<open>'sqlite:///{}'.format(database_filename)\<close>.
\<close>

definition save_data ::
  "(frame \<Rightarrow> string \<Rightarrow> string \<Rightarrow> 'e \<Rightarrow> 'e \<times> (py_error + unit)) \<Rightarrow> frame \<Rightarrow> string
     \<Rightarrow> 'e world \<Rightarrow> 'e world \<times> (py_error + unit)" where
  "save_data to_sql df database_filename w =
     (let db_name = ''sqlite:///'' @ database_filename;
          w = w\<lparr>calls := calls w @ [ToSql db_name ''DisasterResponse'']\<rparr>
      in case to_sql df ''DisasterResponse'' db_name (outside w) of
           (out, res) \<Rightarrow> (w\<lparr>outside := out\<rparr>, res))"

text \<open>
  A run of \<^verbatim>\<open>main\<close> ends by returning, and the process exits with status 0, or by
  an exception that nothing catches, and it exits with status 1.
\<close>

datatype outcome = Returned | Raised py_error

definition exit_status :: "outcome \<Rightarrow> nat" where
  "exit_status oc = (case oc of Returned \<Rightarrow> 0 | Raised e \<Rightarrow> 1)"

definition newline :: string where
  "newline = [CHR 0x0A]"

definition usage_message :: string where
  "usage_message =
     ''Please provide the filepaths of the messages and categories '' @
     ''datasets as the first and second argument respectively, as '' @
     ''well as the filepath of the database to save the cleaned data '' @
     ''to as the third argument. '' @ newline @ newline @
     ''Example: python process_data.py '' @
     ''disaster_messages.csv disaster_categories.csv '' @
     ''DisasterResponse.db''"

definition main ::
  "(string \<Rightarrow> 'e \<Rightarrow> py_error + frame)
     \<Rightarrow> (frame \<Rightarrow> string \<Rightarrow> string \<Rightarrow> 'e \<Rightarrow> 'e \<times> (py_error + unit))
     \<Rightarrow> string list \<Rightarrow> 'e world \<Rightarrow> 'e world \<times> outcome" where
  "main read_csv to_sql argv w =
     (if length argv = 4 then
        let messages_filepath = argv ! 1;
            categories_filepath = argv ! 2;
            database_filepath = argv ! 3;
            w = print_line (''Loading data...'' @ newline @ ''    MESSAGES: '' @
                  messages_filepath @ newline @ ''    CATEGORIES: '' @
                  categories_filepath) w
        in case load_data read_csv messages_filepath categories_filepath w of
             (w, Inl e) \<Rightarrow> (w, Raised e)
           | (w, Inr df) \<Rightarrow>
               let w = print_line ''Cleaning data...'' w in
               (case snd (clean_data df) of
                  Inl e \<Rightarrow> (w, Raised e)
                | Inr df \<Rightarrow>
                    let w = print_line (''Saving data...'' @ newline @
                              ''    DATABASE: '' @ database_filepath) w
                    in (case save_data to_sql df database_filepath w of
                          (w, Inl e) \<Rightarrow> (w, Raised e)
                        | (w, Inr u) \<Rightarrow>
                            (print_line ''Cleaned data saved to database!'' w, Returned)))
      else (print_line usage_message w, Returned))"

section \<open>Notions used to state the properties\<close>

text \<open>
  The labels of the result are the labels of the input without \<^verbatim>\<open>categories\<close>,
  followed by the labels of the category columns; a row of the result has its cells
  in the same order. \<open>category_part df xs\<close> is the second part of such a list.
\<close>

definition category_part :: "frame \<Rightarrow> 'a list \<Rightarrow> 'a list" where
  "category_part df xs = drop (length (columns df) - 1) xs"

text \<open>The cells of a row under the labels \<^verbatim>\<open>message\<close> and \<^verbatim>\<open>original\<close>.\<close>

definition message_original :: "frame \<Rightarrow> cell list \<Rightarrow> cell list \<times> cell list" where
  "message_original f r =
     (select_cells (columns f) [''message''] r, select_cells (columns f) [''original''] r)"

text \<open>
  The positions of the rows whose message and original occur in no earlier row, in
  increasing order.
\<close>

definition first_of_key :: "frame \<Rightarrow> nat list" where
  "first_of_key df =
     filter (\<lambda>i. list_all (\<lambda>j. message_original df (rows df ! j) \<noteq>
                                  message_original df (rows df ! i)) [0..<i])
       [0..<length (rows df)]"

text \<open>
  The shape of a token in the words of the specification: a name, a hyphen and one
  digit character.
\<close>

definition name_digit :: "string \<Rightarrow> bool" where
  "name_digit tok \<longleftrightarrow>
     (case rev tok of
        d # h # name \<Rightarrow> is_digit d \<and> h = CHR ''-''
      | _ \<Rightarrow> False)"



text \<open>The names of the tokens of a cell: the text before the first hyphen.\<close>

definition token_names :: "cell \<Rightarrow> string list" where
  "token_names c = map (\<lambda>tok. hd (split_on CHR ''-'' tok)) (cell_tokens CHR '';'' c)"




text \<open>
  The values of record \<open>i\<close> in the category columns that survive line 70, as cells.
\<close>

definition category_cells :: "(string \<times> int list) list \<Rightarrow> nat \<Rightarrow> cell list" where
  "category_cells cats i =
     map (\<lambda>lv. Num (snd lv ! i)) (filter (\<lambda>lv. card (set (snd lv)) \<noteq> 1) cats)"

text \<open>Shorthands: the tokens of a cell, the width of the expanded frame, and a row
  without its categories cell.\<close>

abbreviation toks :: "cell \<Rightarrow> string list" where
  "toks \<equiv> cell_tokens CHR '';''"

abbreviation width_of :: "cell list \<Rightarrow> nat" where
  "width_of \<equiv> expand_width CHR '';''"

abbreviation base_row :: "frame \<Rightarrow> cell list \<Rightarrow> cell list" where
  "base_row df \<equiv> drop_cells ''categories'' (columns df)"

section \<open>Example tables\<close>

text \<open>
  Three records; the first two have the same message and no original, and differ in
  their categories; \<^verbatim>\<open>offer\<close> is 1 in every record, and one value is a stray 2.
\<close>

definition ex_table :: frame where
  "ex_table =
     \<lparr>index = [0, 1, 2],
      columns = [''id'', ''message'', ''original'', ''genre'', ''categories''],
      dtypes = [Int64D, ObjectD, ObjectD, ObjectD, ObjectD],
      rows =
        [[Num 1, Str ''help'', NaN, Str ''direct'', Str ''related-1;request-0;offer-1''],
         [Num 2, Str ''help'', NaN, Str ''direct'', Str ''related-0;request-0;offer-1''],
         [Num 3, Str ''water'', Str ''agua'', Str ''news'',
          Str ''related-2;request-1;offer-1'']]\<rparr>"

definition ex_caller :: frame where
  "ex_caller =
     \<lparr>index = [0, 1, 2],
      columns = [''id'', ''message'', ''original'', ''genre''],
      dtypes = [Int64D, ObjectD, ObjectD, ObjectD],
      rows =
        [[Num 1, Str ''help'', NaN, Str ''direct''],
         [Num 2, Str ''help'', NaN, Str ''direct''],
         [Num 3, Str ''water'', Str ''agua'', Str ''news'']]\<rparr>"

definition ex_cleaned :: frame where
  "ex_cleaned =
     \<lparr>index = [0, 2],
      columns = [''id'', ''message'', ''original'', ''genre'', ''related'', ''request''],
      dtypes = [Int64D, ObjectD, ObjectD, ObjectD, Int64D, Int64D],
      rows =
        [[Num 1, Str ''help'', NaN, Str ''direct'', Num 1, Num 0],
         [Num 3, Str ''water'', Str ''agua'', Str ''news'', Num 1, Num 1]]\<rparr>"




definition ex_hyphen :: frame where
  "ex_hyphen =
     \<lparr>index = [0, 1],
      columns = [''message'', ''original'', ''categories''],
      dtypes = [ObjectD, Float64D, ObjectD],
      rows =
        [[Str ''a'', NaN, Str ''aid-related-1''],
         [Str ''b'', NaN, Str ''aid-related-0'']]\<rparr>"

text \<open>
  Two records with the same message and original, and a category that is itself
  called \<^verbatim>\<open>message\<close>; and two records with the same message and no original,
  and a category called \<^verbatim>\<open>original\<close>.
\<close>

definition ex_clash_message :: frame where
  "ex_clash_message =
     \<lparr>index = [0, 1],
      columns = [''message'', ''original'', ''categories''],
      dtypes = [ObjectD, ObjectD, ObjectD],
      rows =
        [[Str ''help'', Str ''aide'', Str ''message-1''],
         [Str ''help'', Str ''aide'', Str ''message-0'']]\<rparr>"

definition ex_clash_message_cleaned :: frame where
  "ex_clash_message_cleaned =
     \<lparr>index = [0, 1],
      columns = [''message'', ''original'', ''message''],
      dtypes = [ObjectD, ObjectD, Int64D],
      rows =
        [[Str ''help'', Str ''aide'', Num 1],
         [Str ''help'', Str ''aide'', Num 0]]\<rparr>"

definition ex_clash_original :: frame where
  "ex_clash_original =
     \<lparr>index = [0, 1],
      columns = [''message'', ''original'', ''categories''],
      dtypes = [ObjectD, Float64D, ObjectD],
      rows =
        [[Str ''help'', NaN, Str ''original-1''],
         [Str ''help'', NaN, Str ''original-0'']]\<rparr>"

definition ex_clash_original_cleaned :: frame where
  "ex_clash_original_cleaned =
     \<lparr>index = [0, 1],
      columns = [''message'', ''original'', ''original''],
      dtypes = [ObjectD, Float64D, Int64D],
      rows =
        [[Str ''help'', NaN, Num 1],
         [Str ''help'', NaN, Num 0]]\<rparr>"

text \<open>
  Two sources whose identifiers do not overlap, and a reader that knows the two
  files.
\<close>

definition ex_messages :: frame where
  "ex_messages =
     \<lparr>index = [0, 1],
      columns = [''id'', ''message'', ''original'', ''genre''],
      dtypes = [Int64D, ObjectD, ObjectD, ObjectD],
      rows =
        [[Num 1, Str ''help'', NaN, Str ''direct''],
         [Num 2, Str ''water'', Str ''agua'', Str ''news'']]\<rparr>"

definition ex_categories :: frame where
  "ex_categories =
     \<lparr>index = [0, 1],
      columns = [''id'', ''categories''],
      dtypes = [Int64D, ObjectD],
      rows =
        [[Num 7, Str ''related-1;request-0''],
         [Num 8, Str ''related-0;request-1'']]\<rparr>"

definition ex_read :: "string \<Rightarrow> nat \<Rightarrow> py_error + frame" where
  "ex_read path outside_state =
     (if path = ''messages.csv'' then Inr ex_messages
      else if path = ''categories.csv'' then Inr ex_categories
      else Inl FileNotFoundError)"

section \<open>Auxiliary facts\<close>

lemma bind_err_Inr: "bind_err m f = Inr y \<longleftrightarrow> (\<exists>x. m = Inr x \<and> f x = Inr y)"
  by (cases m) (simp_all add: bind_err_def)

lemma map_err_Inr: "map_err f xs = Inr ys \<longleftrightarrow> list_all2 (\<lambda>x y. f x = Inr y) xs ys"
proof (induction xs arbitrary: ys)
  case Nil
  show ?case by auto
next
  case (Cons x xs)
  show ?case
    by (cases ys) (auto simp: bind_err_Inr Cons.IH)
qed

lemma split_on_nonempty: "split_on sep s \<noteq> []"
  by (induction s) (auto split: list.splits)


lemma split_on_append:
  "sep \<notin> set name \<Longrightarrow> split_on sep (name @ sep # rest) = name # split_on sep rest"
  by (induction name) auto

lemma clip01: "clip 0 1 x = (if x \<le> 0 then 0 else 1)"
  by (simp add: clip_def)

lemma keep_first_subset: "set (keep_first key seen xs) \<subseteq> set xs"
  by (induction xs arbitrary: seen) auto

lemma py_int_digit: "is_digit d \<Longrightarrow> py_int [d] = Some (digit_val d)"
  by (auto simp: py_int_def strip_def parse_unsigned_def is_digit_def is_space_def
      max_str_digits_def)

lemma digit_val_range: "is_digit d \<Longrightarrow> 0 \<le> digit_val d \<and> digit_val d \<le> 9"
  by (auto simp: is_digit_def digit_val_def)

lemma digit_val_zero: "is_digit d \<Longrightarrow> digit_val d = 0 \<longleftrightarrow> d = CHR ''0''"
proof -
  assume "is_digit d"
  have "digit_val d = 0 \<longleftrightarrow> (of_char d :: nat) = of_char (CHR ''0'')"
    using \<open>is_digit d\<close> by (auto simp: digit_val_def is_digit_def)
  then show ?thesis by (metis of_char_eq_iff)
qed

lemma decode_token_name_digit:
  assumes "CHR ''-'' \<notin> set name" "is_digit d"
  shows "decode_token (Some (name @ ''-'' @ [d])) = Inr (digit_val d)"
proof -
  have "d \<noteq> CHR ''-''" using assms(2) by (auto simp: is_digit_def)
  then have "split_on CHR ''-'' (name @ CHR ''-'' # [d]) = [name, [d]]"
    using assms(1) by (simp add: split_on_append)
  moreover have "- (2 ^ 63) \<le> digit_val d \<and> digit_val d < 2 ^ 63"
    using digit_val_range [OF assms(2)] by simp
  ultimately show ?thesis
    using py_int_digit [OF assms(2)]
    by (simp add: decode_token_def token_value_def astype_int_def)
qed

lemma length_select_cells:
  "length r = length cols \<Longrightarrow> length (select_cells cols [l] r) = count_list cols l"
proof (induction cols arbitrary: r)
  case Nil
  then show ?case by (simp add: select_cells_def)
next
  case (Cons c cols)
  then obtain v vs where "r = v # vs" by (cases r) auto
  with Cons show ?case by (auto simp: select_cells_def)
qed

lemma length_column:
  "wf_frame df \<Longrightarrow> count_list (columns df) l = 1 \<Longrightarrow>
     length (concat (column_values df l)) = length (rows df)"
proof -
  assume wf: "wf_frame df" and c: "count_list (columns df) l = 1"
  have "\<forall>r\<in>set (rows df). length (select_cells (columns df) [l] r) = 1"
    using wf c by (auto simp: wf_frame_def list_all_iff length_select_cells)
  then have "map length (column_values df l) = replicate (length (rows df)) 1"
    by (induction "rows df" arbitrary: df) (auto simp: column_values_def map_replicate_const[symmetric] intro!: map_cong)
  then show ?thesis by (simp add: length_concat sum_list_replicate)
qed

lemma count_list_1_distinct:
  "(\<forall>x\<in>set xs. count_list xs x = 1) \<Longrightarrow> distinct xs"
proof (induction xs)
  case Nil
  then show ?case by simp
next
  case (Cons a xs)
  have a: "count_list xs a = 0" using Cons.prems by auto
  then have "a \<notin> set xs" by (simp add: count_list_0_iff)
  moreover have "\<forall>x\<in>set xs. count_list xs x = 1"
    using Cons.prems \<open>a \<notin> set xs\<close> by (auto split: if_splits)
  ultimately show ?case using Cons.IH by simp
qed


lemma map_err_length: "map_err f xs = Inr ys \<Longrightarrow> length ys = length xs"
  by (simp add: map_err_Inr list_all2_lengthD)

lemma length_str_split_expand [simp]: "length (str_split_expand sep series) = length series"
  by (simp add: str_split_expand_def)

lemma length_columns_of [simp]: "length (columns_of w rws) = w"
  by (simp add: columns_of_def)

lemma columns_of_nth: "j < w \<Longrightarrow> columns_of w rws ! j = map (\<lambda>r. r ! j) rws"
  by (simp add: columns_of_def)

text \<open>What a successful conversion of the columns gives.\<close>

lemma convert_columns_Inr:
  assumes "map_err (convert_column names) (zip names cols) = Inr raw"
    and "length cols = length names"
  shows "map fst raw = names"
    and "distinct names"
    and "\<forall>j<length names. map_err decode_token (cols ! j) = Inr (snd (raw ! j))"
proof -
  from assms(1) have l2: "list_all2 (\<lambda>x y. convert_column names x = Inr y) (zip names cols) raw"
    by (simp add: map_err_Inr)
  then have len: "length raw = length names"
    using assms(2) by (auto dest: list_all2_lengthD)
  have each: "convert_column names (names ! j, cols ! j) = Inr (raw ! j)" if "j < length names" for j
    using list_all2_nthD [OF l2, of j] that assms(2) by simp
  have parts: "fst (raw ! j) = names ! j \<and> count_list names (names ! j) = 1 \<and>
      map_err decode_token (cols ! j) = Inr (snd (raw ! j))" if "j < length names" for j
    using each [OF that]
    by (cases "raw ! j") (auto simp: convert_column_def bind_err_Inr split: if_splits)
  show "map fst raw = names"
    using len parts by (auto intro: nth_equalityI)
  show "distinct names"
    using parts by (auto intro!: count_list_1_distinct simp: in_set_conv_nth)
  show "\<forall>j<length names. map_err decode_token (cols ! j) = Inr (snd (raw ! j))"
    using parts by simp
qed

lemma str_accessor_Inr:
  "str_accessor dt s = Inr x \<longleftrightarrow>
     x = s \<and> dt = ObjectD \<and> (list_all is_NaN s \<or> list_ex is_Str s)"
  by (auto simp: str_accessor_def)

lemma decode_categories_Inr:
  assumes "decode_categories series = Inr raw"
  shows "series \<noteq> []"
    and "distinct (map fst raw)"
    and "list_all (\<lambda>lv. length (snd lv) = length series) raw"
proof -
  let ?cats = "str_split_expand CHR '';'' series"
  from assms obtain row names where
    row: "iloc0 ?cats = Inr row" and
    names: "category_colnames row = Inr names" and
    conv: "map_err (convert_column names) (zip names (columns_of (length row) ?cats)) = Inr raw"
    by (auto simp: decode_categories_def bind_err_Inr Let_def)
  from row have "?cats \<noteq> []" by (auto simp: iloc0_def split: list.splits)
  then show "series \<noteq> []" by (auto simp: str_split_expand_def)
  have len: "length names = length row"
    using names by (simp add: category_colnames_def map_err_length)
  note c = convert_columns_Inr [OF conv, simplified, OF len [symmetric]]
  show "distinct (map fst raw)" using c(1,2) by simp
  have "length raw = length names" using c(1) by (metis length_map)
  have "length (snd (raw ! j)) = length series" if "j < length raw" for j
  proof -
    have j: "j < length names" using that \<open>length raw = length names\<close> by simp
    then have "map_err decode_token (columns_of (length row) ?cats ! j) = Inr (snd (raw ! j))"
      using c(3) len by simp
    then have "length (snd (raw ! j)) = length (columns_of (length row) ?cats ! j)"
      by (rule map_err_length)
    then show ?thesis using j len by (simp add: columns_of_nth)
  qed
  then show "list_all (\<lambda>lv. length (snd lv) = length series) raw"
    by (auto simp: list_all_length)
qed

lemma category_frame_Inr:
  "category_frame df = Inr cats \<longleftrightarrow>
     count_list (columns df) ''categories'' = 1 \<and>
     str_accessor (column_dtype df ''categories'') (concat (column_values df ''categories'')) =
       Inr (concat (column_values df ''categories'')) \<and>
     (\<exists>raw. decode_categories (concat (column_values df ''categories'')) = Inr raw \<and>
            cats = clip_columns raw)"
  by (auto simp: category_frame_def getattr_column_def bind_err_Inr str_accessor_Inr)

lemma clean_data_Inr:
  assumes "snd (clean_data df) = Inr out"
  shows "\<exists>cats. category_frame df = Inr cats \<and>
           fst (clean_data df) = drop_column ''categories'' df \<and>
           drop_duplicates [''message'', ''original'']
             (concat_columns (drop_column ''categories'' df) (drop_one_val_cols cats)) = Inr out"
  using assms by (cases "category_frame df") (auto simp: clean_data_def Let_def)

lemma clean_data_Inl:
  "category_frame df = Inl e \<Longrightarrow> clean_data df = (df, Inl e)"
  by (simp add: clean_data_def)

lemma keep_first_zip_rows:
  "set (map snd (keep_first key seen (zip is rs))) \<subseteq> set rs"
proof
  fix r assume "r \<in> set (map snd (keep_first key seen (zip is rs)))"
  then obtain i where "(i, r) \<in> set (keep_first key seen (zip is rs))" by auto
  then have "(i, r) \<in> set (zip is rs)" using keep_first_subset by fastforce
  then show "r \<in> set rs" by (rule set_zip_rightD)
qed

lemma keep_first_nonempty: "xs \<noteq> [] \<Longrightarrow> keep_first key [] xs \<noteq> []"
  by (cases xs) auto

lemma drop_duplicates_Inr:
  assumes "drop_duplicates L f = Inr out"
  shows "columns out = columns f" and "set (rows out) \<subseteq> set (rows f)"
    and "wf_frame f \<Longrightarrow> wf_frame out"
    and "wf_frame f \<Longrightarrow> rows f \<noteq> [] \<Longrightarrow> rows out \<noteq> []"
proof -
  let ?kept = "keep_first (\<lambda>(i, r). select_cells (columns f) L r) [] (zip (index f) (rows f))"
  from assms have out: "out = f \<or> out = f\<lparr>index := map fst ?kept, rows := map snd ?kept\<rparr>"
    by (auto simp: drop_duplicates_def Let_def split: if_splits)
  then show "columns out = columns f" by auto
  from out show sub: "set (rows out) \<subseteq> set (rows f)"
    using keep_first_zip_rows [of "\<lambda>(i, r). select_cells (columns f) L r" "[]" "index f" "rows f"]
    by auto
  show "wf_frame out" if "wf_frame f"
    using out that sub by (auto simp: wf_frame_def list_all_iff)
  show "rows out \<noteq> []" if "wf_frame f" "rows f \<noteq> []"
  proof -
    have "zip (index f) (rows f) \<noteq> []"
      using that by (cases "index f"; cases "rows f") (auto simp: wf_frame_def)
    then have "?kept \<noteq> []" by (rule keep_first_nonempty)
    then show ?thesis using out that by auto
  qed
qed

lemma filter_zip_length:
  "length r = length cols \<Longrightarrow>
     length (filter (\<lambda>(c, v). c \<noteq> l) (zip cols r)) + count_list cols l = length cols"
proof (induction cols arbitrary: r)
  case Nil
  then show ?case by simp
next
  case (Cons c cols)
  then obtain v vs where "r = v # vs" by (cases r) auto
  with Cons show ?case by auto
qed

lemma length_filter_count: "length (filter (\<lambda>c. c \<noteq> l) cols) + count_list cols l = length cols"
  by (induction cols) auto

lemma clip_columns_fst [simp]: "map fst (clip_columns raw) = map fst raw"
  by (induction raw) (auto simp: clip_columns_def)

lemma clip_columns_binary:
  "(l, vs) \<in> set (clip_columns raw) \<Longrightarrow> v \<in> set vs \<Longrightarrow> v = 0 \<or> v = 1"
  by (auto simp: clip_columns_def clip01 split: if_splits)

lemma clip_columns_length:
  "list_all (\<lambda>lv. length (snd lv) = n) raw \<Longrightarrow> list_all (\<lambda>lv. length (snd lv) = n) (clip_columns raw)"
  by (auto simp: clip_columns_def list_all_iff)

lemma drop_one_val_cols_subset: "set (drop_one_val_cols cats) \<subseteq> set cats"
  by (auto simp: drop_one_val_cols_def drop_labels_def)

text \<open>The frame before the removal of duplicates.\<close>

lemma rows_concat_columns:
  "rows (concat_columns (drop_column ''categories'' df) cs) =
     map (\<lambda>i. base_row df (rows df ! i) @ map (\<lambda>(l, vs). Num (vs ! i)) cs) [0..<length (rows df)]"
  by (auto simp: concat_columns_def drop_column_def drop_cells_def intro!: nth_equalityI)

lemma columns_concat_columns:
  "columns (concat_columns (drop_column ''categories'' df) cs) =
     filter (\<lambda>c. c \<noteq> ''categories'') (columns df) @ map fst cs"
  by (simp add: concat_columns_def drop_column_def)

lemma index_concat_columns:
  "index (concat_columns (drop_column ''categories'' df) cs) = index df"
  by (simp add: concat_columns_def drop_column_def)

lemma length_base_row:
  "wf_frame df \<Longrightarrow> count_list (columns df) ''categories'' = 1 \<Longrightarrow> r \<in> set (rows df) \<Longrightarrow>
     length (base_row df r) = length (columns df) - 1"
  using filter_zip_length [of r "columns df" "''categories''"]
  by (auto simp: drop_cells_def wf_frame_def list_all_iff)

lemma wf_concat_columns:
  "wf_frame df \<Longrightarrow> count_list (columns df) ''categories'' = 1 \<Longrightarrow>
     wf_frame (concat_columns (drop_column ''categories'' df) cs)"
  using length_filter_count [of "''categories''" "columns df"]
  by (auto simp: wf_frame_def list_all_iff rows_concat_columns columns_concat_columns
      index_concat_columns length_base_row)

lemma foldr_max_ge: "x \<in> set xs \<Longrightarrow> x \<le> foldr max xs (0::nat)"
  by (induction xs) (auto simp: max_def)


lemma foldr_max_zero: "foldr max xs (0::nat) = 0 \<Longrightarrow> \<forall>x\<in>set xs. x = 0"
  by (induction xs) (auto simp: max_def split: if_splits)

lemma cell_tokens_Str: "cell_tokens sep c \<noteq> [] \<longleftrightarrow> is_Str c"
  by (cases c) (auto simp: cell_tokens_def is_Str_def split_on_nonempty)

lemma decode_token_None: "decode_token None = Inl ValueError"
  by (simp add: decode_token_def token_value_def astype_int_def)

lemma colname_Inr: "colname x = Inr n \<longleftrightarrow> (\<exists>s. x = Some s \<and> n = hd (split_on CHR ''-'' s))"
  by (cases x) (auto simp: colname_def)

lemma expand_nth:
  "i < length series \<Longrightarrow>
     str_split_expand CHR '';'' series ! i =
       map Some (toks (series ! i)) @
       replicate (width_of series - length (toks (series ! i))) None"
  by (simp add: str_split_expand_def)

lemma tokens_le_entry:
  "length (toks c) \<le> (if is_Str c then length (toks c) else 1)"
  by (cases c) (simp_all add: cell_tokens_def is_Str_def)

lemma tokens_le_width:
  "i < length series \<Longrightarrow> length (toks (series ! i)) \<le> width_of series"
proof -
  assume i: "i < length series"
  let ?f = "\<lambda>c. if is_Str c then length (toks c) else 1"
  have "series ! i \<in> set series" using i by simp
  then have "?f (series ! i) \<in> ?f ` set series" by (rule imageI)
  then have "?f (series ! i) \<in> set (map ?f series)" by (simp only: set_map)
  then have "?f (series ! i) \<le> width_of series"
    unfolding expand_width_def by (rule foldr_max_ge)
  then show ?thesis using tokens_le_entry [of "series ! i"] by (rule order_trans [rotated])
qed

lemma width_pos: "series \<noteq> [] \<Longrightarrow> 0 < width_of series"
proof -
  assume "series \<noteq> []"
  then obtain c cs where s: "series = c # cs" by (cases series) auto
  let ?f = "\<lambda>c. if is_Str c then length (toks c) else 1"
  have "0 < ?f c" by (simp add: cell_tokens_Str)
  moreover have "?f c \<le> width_of series"
    unfolding expand_width_def s by simp
  ultimately show ?thesis by simp
qed

lemma length_expand_nth:
  "i < length series \<Longrightarrow> length (str_split_expand CHR '';'' series ! i) = width_of series"
  using tokens_le_width [of i series] by (simp add: expand_nth)

lemma expand_entry:
  assumes "i < length series" "j < width_of series"
  shows "str_split_expand CHR '';'' series ! i ! j =
     (if j < length (toks (series ! i))
      then Some (toks (series ! i) ! j) else None)"
  using assms by (simp add: expand_nth nth_append)

lemma decode_categories_cells:
  assumes "decode_categories series = Inr raw"
  shows "series \<noteq> []"
    and "\<forall>i<length series. is_Str (series ! i) \<and> length (toks (series ! i)) = length raw"
    and "map fst raw = map (\<lambda>tok. hd (split_on CHR ''-'' tok)) (toks (hd series))"
    and "distinct (map fst raw)"
    and "\<forall>j<length raw. \<forall>i<length series.
           length (snd (raw ! j)) = length series \<and>
           decode_token (Some (toks (series ! i) ! j)) = Inr (snd (raw ! j) ! i)"
proof -
  let ?E = "str_split_expand CHR '';'' series"
  let ?w = "width_of series"
  from assms obtain row names where
    row: "iloc0 ?E = Inr row" and
    names: "category_colnames row = Inr names" and
    conv: "map_err (convert_column names) (zip names (columns_of (length row) ?E)) = Inr raw"
    by (auto simp: decode_categories_def bind_err_Inr Let_def)
  from row have "?E \<noteq> []" by (auto simp: iloc0_def split: list.splits)
  then show ne: "series \<noteq> []" by (auto simp: str_split_expand_def)
  then have pos: "0 < length series" by simp
  from row have row0: "row = ?E ! 0"
    by (cases ?E) (auto simp: iloc0_def)
  then have lrow: "length row = ?w" using pos by (simp add: length_expand_nth)
  have lnames: "length names = ?w"
    using names lrow by (simp add: category_colnames_def map_err_length)
  note c = convert_columns_Inr [OF conv]
  have lraw: "length raw = ?w"
    using c(1) lnames lrow by (metis length_columns_of length_map)
  have names_nth: "colname (row ! j) = Inr (names ! j)" if "j < ?w" for j
    using names that lrow
    by (auto simp: category_colnames_def map_err_Inr dest: list_all2_nthD)
  have first_full: "j < length (toks (series ! 0))" if "j < ?w" for j
    using names_nth [OF that] that pos
    by (auto simp: row0 expand_entry colname_Inr split: if_splits)
  have entry: "decode_token (?E ! i ! j) = Inr (snd (raw ! j) ! i) \<and>
      length (snd (raw ! j)) = length series"
    if "j < ?w" "i < length series" for i j
  proof -
    have "map_err decode_token (columns_of (length row) ?E ! j) = Inr (snd (raw ! j))"
      using c(3) that lnames lrow by simp
    then have "list_all2 (\<lambda>x y. decode_token x = Inr y) (map (\<lambda>r. r ! j) ?E) (snd (raw ! j))"
      using that lrow by (simp add: columns_of_nth map_err_Inr)
    then show ?thesis
      using that by (auto dest: list_all2_nthD list_all2_lengthD)
  qed
  have full: "j < length (toks (series ! i))" if "j < ?w" "i < length series" for i j
    using entry [OF that] that
    by (auto simp: expand_entry decode_token_None split: if_splits)
  have eqw: "length (toks (series ! i)) = ?w" if "i < length series" for i
  proof (rule antisym)
    show "length (toks (series ! i)) \<le> ?w" using that by (rule tokens_le_width)
    show "?w \<le> length (toks (series ! i))"
      using full [OF _ that] by (meson not_less order_refl)
  qed
  have wpos: "0 < ?w" using ne by (rule width_pos)
  show "\<forall>i<length series. is_Str (series ! i) \<and> length (toks (series ! i)) = length raw"
  proof (intro allI impI)
    fix i assume i: "i < length series"
    then have "toks (series ! i) \<noteq> []" using eqw [OF i] wpos by (metis length_greater_0_conv)
    then show "is_Str (series ! i) \<and> length (toks (series ! i)) = length raw"
      using eqw [OF i] lraw by (simp add: cell_tokens_Str)
  qed
  have hd0: "hd series = series ! 0" using ne by (simp add: hd_conv_nth)
  have "names = map (\<lambda>tok. hd (split_on CHR ''-'' tok)) (toks (series ! 0))"
  proof (rule nth_equalityI)
    show "length names = length (map (\<lambda>tok. hd (split_on CHR ''-'' tok)) (toks (series ! 0)))"
      using lnames eqw [OF pos] by simp
    fix j assume "j < length names"
    then have j: "j < ?w" using lnames by simp
    then show "names ! j = map (\<lambda>tok. hd (split_on CHR ''-'' tok)) (toks (series ! 0)) ! j"
      using names_nth [OF j] first_full [OF j] pos
      by (auto simp: row0 expand_entry colname_Inr)
  qed
  moreover have "map fst raw = names"
    using c(1) lnames lrow by simp
  ultimately show "map fst raw = map (\<lambda>tok. hd (split_on CHR ''-'' tok)) (toks (hd series))"
    using hd0 by simp
  show "distinct (map fst raw)"
    using c(2) \<open>map fst raw = names\<close> lnames lrow by simp
  show "\<forall>j<length raw. \<forall>i<length series.
           length (snd (raw ! j)) = length series \<and>
           decode_token (Some (toks (series ! i) ! j)) = Inr (snd (raw ! j) ! i)"
    using entry full lraw by (auto simp: expand_entry)
qed
















lemma keep_first_filter:
  "keep_first key seen xs =
     map (nth xs) (filter (\<lambda>i. key (xs ! i) \<notin> set seen \<and> (\<forall>j<i. key (xs ! j) \<noteq> key (xs ! i)))
       [0..<length xs])"
proof (induction xs arbitrary: seen)
  case Nil
  show ?case by simp
next
  case (Cons x xs)
  let ?P = "\<lambda>s i. key (xs ! i) \<notin> set s \<and> (\<forall>j<i. key (xs ! j) \<noteq> key (xs ! i))"
  let ?Q = "\<lambda>i. key ((x # xs) ! i) \<notin> set seen \<and>
      (\<forall>j<i. key ((x # xs) ! j) \<noteq> key ((x # xs) ! i))"
  have upt: "[0..<length (x # xs)] = 0 # map Suc [0..<length xs]"
    by (simp add: upt_conv_Cons map_Suc_upt del: upt_Suc)
  have Q0: "?Q 0 \<longleftrightarrow> key x \<notin> set seen" by simp
  have QS: "?Q (Suc i) \<longleftrightarrow> key (xs ! i) \<notin> set seen \<and> key x \<noteq> key (xs ! i) \<and>
      (\<forall>j<i. key (xs ! j) \<noteq> key (xs ! i))" for i
    by (auto simp: less_Suc_eq_0_disj)
  have tail: "map (nth (x # xs)) (filter ?Q (map Suc [0..<length xs])) =
      map (nth xs) (filter (\<lambda>i. ?Q (Suc i)) [0..<length xs])"
    by (simp add: filter_map comp_def)
  show ?case
  proof (cases "key x \<in> set seen")
    case True
    then have "(\<lambda>i. ?Q (Suc i)) = ?P seen" unfolding QS by auto
    then show ?thesis
      unfolding upt using True Q0 tail Cons.IH [of seen] by simp
  next
    case False
    then have "(\<lambda>i. ?Q (Suc i)) = ?P (key x # seen)" unfolding QS by auto
    then show ?thesis
      unfolding upt using False Q0 tail Cons.IH [of "key x # seen"] by simp
  qed
qed

lemma select_cells_eq_iff:
  "length r1 = length cols \<Longrightarrow> length r2 = length cols \<Longrightarrow>
     select_cells cols L r1 = select_cells cols L r2 \<longleftrightarrow>
       (\<forall>k<length cols. cols ! k \<in> set L \<longrightarrow> r1 ! k = r2 ! k)"
proof (induction cols arbitrary: r1 r2)
  case Nil
  then show ?case by (simp add: select_cells_def)
next
  case (Cons c cols)
  from Cons.prems obtain v1 s1 v2 s2 where r: "r1 = v1 # s1" "r2 = v2 # s2"
    by (cases r1; cases r2) auto
  with Cons.prems have l: "length s1 = length cols" "length s2 = length cols" by auto
  have step: "select_cells (c # cols) L (v # s) =
      (if c \<in> set L then [v] else []) @ select_cells cols L s" for v s
    by (simp add: select_cells_def)
  show ?case
    unfolding r step using Cons.IH [OF l]
    by (auto simp: less_Suc_eq_0_disj)
qed

lemma category_frame_facts:
  assumes wf: "wf_frame df" and cf: "category_frame df = Inr cats"
  shows "count_list (columns df) ''categories'' = 1"
    and "rows df \<noteq> []"
    and "distinct (map fst cats)"
    and "\<forall>lv\<in>set cats. length (snd lv) = length (rows df) \<and> (\<forall>v\<in>set (snd lv). v = 0 \<or> v = 1)"
proof -
  from cf obtain raw where cnt: "count_list (columns df) ''categories'' = 1"
    and raw: "decode_categories (concat (column_values df ''categories'')) = Inr raw"
    and cats: "cats = clip_columns raw"
    unfolding category_frame_Inr by blast
  show "count_list (columns df) ''categories'' = 1" by (rule cnt)
  note d = decode_categories_Inr [OF raw]
  have len: "length (concat (column_values df ''categories'')) = length (rows df)"
    using wf cnt by (rule length_column)
  show "rows df \<noteq> []" using d(1) len by auto
  show "distinct (map fst cats)" using d(2) cats by simp
  have "list_all (\<lambda>lv. length (snd lv) = length (rows df)) cats"
    using d(3) unfolding cats len by (rule clip_columns_length)
  moreover have "\<forall>v\<in>set (snd lv). v = 0 \<or> v = 1" if "lv \<in> set cats" for lv
    using that clip_columns_binary [of "fst lv" "snd lv" raw] unfolding cats by auto
  ultimately show "\<forall>lv\<in>set cats. length (snd lv) = length (rows df) \<and>
      (\<forall>v\<in>set (snd lv). v = 0 \<or> v = 1)"
    by (simp add: list_all_iff)
qed

lemma clean_data_shape:
  assumes wf: "wf_frame df" and ok: "snd (clean_data df) = Inr out"
    and cf: "category_frame df = Inr cats"
  shows "columns out = filter (\<lambda>c. c \<noteq> ''categories'') (columns df) @
           map fst (drop_one_val_cols cats)"
    and "length (filter (\<lambda>c. c \<noteq> ''categories'') (columns df)) = length (columns df) - 1"
    and "\<forall>r\<in>set (rows out). \<exists>i<length (rows df).
           r = base_row df (rows df ! i) @
               map (\<lambda>(l, vs). Num (vs ! i)) (drop_one_val_cols cats)"
    and "rows out \<noteq> []"
    and "wf_frame out"
proof -
  let ?df2 = "concat_columns (drop_column ''categories'' df) (drop_one_val_cols cats)"
  from clean_data_Inr [OF ok] cf have dd:
    "drop_duplicates [''message'', ''original''] ?df2 = Inr out" by auto
  note f = category_frame_facts [OF wf cf]
  note d = drop_duplicates_Inr [OF dd]
  have wf2: "wf_frame ?df2" using wf f(1) by (rule wf_concat_columns)
  show "columns out = filter (\<lambda>c. c \<noteq> ''categories'') (columns df) @
           map fst (drop_one_val_cols cats)"
    using d(1) by (simp add: columns_concat_columns)
  show "length (filter (\<lambda>c. c \<noteq> ''categories'') (columns df)) = length (columns df) - 1"
    using length_filter_count [of "''categories''" "columns df"] f(1) by simp
  show "\<forall>r\<in>set (rows out). \<exists>i<length (rows df).
           r = base_row df (rows df ! i) @
               map (\<lambda>(l, vs). Num (vs ! i)) (drop_one_val_cols cats)"
  proof
    fix r assume "r \<in> set (rows out)"
    then have "r \<in> set (rows ?df2)" using d(2) by blast
    then show "\<exists>i<length (rows df).
           r = base_row df (rows df ! i) @
               map (\<lambda>(l, vs). Num (vs ! i)) (drop_one_val_cols cats)"
      unfolding rows_concat_columns by auto
  qed
  have "rows ?df2 \<noteq> []" using f(2) by (simp add: rows_concat_columns)
  then show "rows out \<noteq> []" using d(4) wf2 by blast
  show "wf_frame out" using d(3) wf2 by blast
qed

lemma category_part_row:
  assumes wf: "wf_frame df" and cnt: "count_list (columns df) ''categories'' = 1"
    and i: "i < length (rows df)"
  shows "category_part df (base_row df (rows df ! i) @ cs) = cs"
proof -
  have "length (base_row df (rows df ! i)) = length (columns df) - 1"
    using wf cnt i by (intro length_base_row) simp_all
  then show ?thesis by (simp add: category_part_def)
qed

lemma clean_data_columns:
  assumes ok: "snd (clean_data df) = Inr out" and cf: "category_frame df = Inr cats"
  shows "columns out = filter (\<lambda>c. c \<noteq> ''categories'') (columns df) @
           map fst (drop_one_val_cols cats)"
    and "category_part df (columns out) = map fst (drop_one_val_cols cats)"
proof -
  let ?df2 = "concat_columns (drop_column ''categories'' df) (drop_one_val_cols cats)"
  from clean_data_Inr [OF ok] cf have dd:
    "drop_duplicates [''message'', ''original''] ?df2 = Inr out" by auto
  have cnt: "count_list (columns df) ''categories'' = 1"
    using cf unfolding category_frame_Inr by blast
  show c: "columns out = filter (\<lambda>c. c \<noteq> ''categories'') (columns df) @
           map fst (drop_one_val_cols cats)"
    using drop_duplicates_Inr(1) [OF dd] by (simp add: columns_concat_columns)
  have "length (filter (\<lambda>c. c \<noteq> ''categories'') (columns df)) = length (columns df) - 1"
    using length_filter_count [of "''categories''" "columns df"] cnt by simp
  then show "category_part df (columns out) = map fst (drop_one_val_cols cats)"
    unfolding c category_part_def by simp
qed

lemma drop_one_val_cols_eq:
  "drop_one_val_cols cats = filter (\<lambda>lv. card (set (snd lv)) \<noteq> 1) cats"
  if "distinct (map fst cats)"
proof -
  have one: "set (one_val_cols cats) = fst ` {lv \<in> set cats. card (set (snd lv)) = 1}"
    by (auto simp: one_val_cols_def length_remdups_card_conv case_prod_beta)
  have "fst lv \<notin> set (one_val_cols cats) \<longleftrightarrow> card (set (snd lv)) \<noteq> 1" if "lv \<in> set cats" for lv
  proof
    assume "fst lv \<notin> set (one_val_cols cats)"
    then show "card (set (snd lv)) \<noteq> 1" using that unfolding one by force
  next
    assume c: "card (set (snd lv)) \<noteq> 1"
    show "fst lv \<notin> set (one_val_cols cats)"
    proof
      assume "fst lv \<in> set (one_val_cols cats)"
      then obtain lv' where lv': "lv' \<in> set cats" "card (set (snd lv')) = 1" "fst lv' = fst lv"
        unfolding one by force
      then have "lv' = lv"
        using \<open>distinct (map fst cats)\<close> that by (metis eq_key_imp_eq_value prod.collapse)
      with lv' c show False by simp
    qed
  qed
  then show ?thesis
    unfolding drop_one_val_cols_def drop_labels_def
    by (intro filter_cong) (auto simp: case_prod_beta)
qed

lemma category_frame_distinct: "category_frame df = Inr cats \<Longrightarrow> distinct (map fst cats)"
  unfolding category_frame_Inr using decode_categories_Inr(2) by fastforce

lemma filter_keys_distinct:
  "distinct (map fst xs) \<Longrightarrow>
     filter (\<lambda>l. l \<in> set (map fst (filter P xs))) (map fst xs) = map fst (filter P xs)"
proof (induction xs)
  case Nil
  then show ?case by simp
next
  case (Cons x xs)
  from Cons.prems have "fst x \<notin> fst ` set xs" and d: "distinct (map fst xs)" by auto
  then have nx: "\<forall>y\<in>set xs. fst y \<noteq> fst x" by (metis imageI)
  have tail: "filter (\<lambda>l. l \<in> set (map fst (filter P (x # xs)))) (map fst xs) =
      filter (\<lambda>l. l \<in> set (map fst (filter P xs))) (map fst xs)"
  proof (intro filter_cong refl)
    fix l assume "l \<in> set (map fst xs)"
    then have "l \<noteq> fst x" using nx by auto
    then show "l \<in> set (map fst (filter P (x # xs))) \<longleftrightarrow>
        l \<in> set (map fst (filter P xs))"
      by auto
  qed
  have head: "fst x \<in> set (map fst (filter P (x # xs))) \<longleftrightarrow> P x"
    using nx by auto
  define S where "S = set (map fst (filter P (x # xs)))"
  have "filter (\<lambda>l. l \<in> S) (map fst (x # xs)) =
      (if fst x \<in> S then [fst x] else []) @ filter (\<lambda>l. l \<in> S) (map fst xs)"
    by simp
  also have "\<dots> = (if P x then [fst x] else []) @ map fst (filter P xs)"
    using head tail Cons.IH [OF d] unfolding S_def by presburger
  also have "\<dots> = map fst (filter P (x # xs))" by simp
  finally show ?case unfolding S_def .
qed

lemma select_cells_append:
  "length a = length A \<Longrightarrow>
     select_cells (A @ B) L (a @ b) = select_cells A L a @ select_cells B L b"
  by (simp add: select_cells_def)

lemma select_cells_subset: "set (select_cells cols L r) \<subseteq> set r"
  by (auto simp: select_cells_def dest: set_zip_rightD)

lemma select_cells_none: "\<forall>l\<in>set L. l \<notin> set cols \<Longrightarrow> select_cells cols L r = []"
proof -
  assume a: "\<forall>l\<in>set L. l \<notin> set cols"
  have "filter (\<lambda>(c, v). c \<in> set L) (zip cols r) = []"
    unfolding filter_empty_conv using a by (auto dest: set_zip_leftD)
  then show ?thesis by (simp add: select_cells_def)
qed

lemma zip_filter_drop:
  "zip (filter (\<lambda>x. x \<noteq> c) cols) (drop_cells c cols r) = filter (\<lambda>(x, v). x \<noteq> c) (zip cols r)"
proof (induction cols arbitrary: r)
  case Nil
  show ?case by (simp add: drop_cells_def)
next
  case (Cons a cols)
  show ?case
  proof (cases r)
    case Nil
    then show ?thesis by (simp add: drop_cells_def)
  next
    case (Cons v vs)
    have step: "drop_cells c (a # cols) (v # vs) =
        (if a \<noteq> c then [v] else []) @ drop_cells c cols vs"
      by (simp add: drop_cells_def)
    show ?thesis
      unfolding Cons step using Cons.IH [of vs] by simp
  qed
qed

lemma select_cells_drop_cells:
  assumes "c \<notin> set L"
  shows "select_cells (filter (\<lambda>x. x \<noteq> c) cols) L (drop_cells c cols r) = select_cells cols L r"
proof -
  have "filter (\<lambda>(x, v). x \<in> set L) (filter (\<lambda>(x, v). x \<noteq> c) (zip cols r)) =
      filter (\<lambda>(x, v). x \<in> set L) (zip cols r)"
    unfolding filter_filter using assms by (intro filter_cong) auto
  then show ?thesis
    unfolding select_cells_def zip_filter_drop by simp
qed

lemma column_values_drop_column:
  "label \<noteq> c \<Longrightarrow> column_values (drop_column c df) label = column_values df label"
  using select_cells_drop_cells [of c "[label]" "columns df"]
  by (simp add: column_values_def drop_column_def)










lemma key_eq_message_original:
  assumes "length r1 = length (columns f)" "length r2 = length (columns f)"
  shows "select_cells (columns f) [''message'', ''original''] r1 =
         select_cells (columns f) [''message'', ''original''] r2 \<longleftrightarrow>
         message_original f r1 = message_original f r2"
  unfolding message_original_def prod.inject
    select_cells_eq_iff [OF assms]
  by auto

lemma distinct_first_occurrences:
  "distinct (map f (filter (\<lambda>i. \<forall>j<i. f j \<noteq> f i) [0..<n]))"
proof -
  have "inj_on f (set (filter (\<lambda>i. \<forall>j<i. f j \<noteq> f i) [0..<n]))"
  proof (rule inj_onI)
    fix a b
    assume a: "a \<in> set (filter (\<lambda>i. \<forall>j<i. f j \<noteq> f i) [0..<n])"
      and b: "b \<in> set (filter (\<lambda>i. \<forall>j<i. f j \<noteq> f i) [0..<n])"
      and eq: "f a = f b"
    show "a = b"
    proof (rule ccontr)
      assume "a \<noteq> b"
      then consider "a < b" | "b < a" by (meson nat_neq_iff)
      then show False
      proof cases
        case 1
        then show False using b eq by auto
      next
        case 2
        then show False using a eq by auto
      qed
    qed
  qed
  then show ?thesis by (simp add: distinct_map)
qed

lemma first_of_key_alt:
  "first_of_key df =
     filter (\<lambda>i. \<forall>j<i. message_original df (rows df ! j) \<noteq> message_original df (rows df ! i))
       [0..<length (rows df)]"
  unfolding first_of_key_def by (simp add: list_all_iff Ball_def)

lemma first_of_key_bound: "i \<in> set (first_of_key df) \<Longrightarrow> i < length (rows df)"
  by (simp add: first_of_key_alt)

text \<open>Row \<open>i\<close> of the frame before the removal of duplicates, seen through a label.\<close>

lemma select_cells_full_row:
  assumes wf: "wf_frame df" and cnt: "count_list (columns df) ''categories'' = 1"
    and i: "i < length (rows df)"
    and L: "''categories'' \<notin> set L" "\<forall>l\<in>set L. l \<notin> set names"
  shows "select_cells (filter (\<lambda>c. c \<noteq> ''categories'') (columns df) @ names) L
           (base_row df (rows df ! i) @ cs) =
         select_cells (columns df) L (rows df ! i)"
proof -
  let ?base = "filter (\<lambda>c. c \<noteq> ''categories'') (columns df)"
  have lb: "length (base_row df (rows df ! i)) = length ?base"
    using length_base_row [OF wf cnt, of "rows df ! i"] i
      length_filter_count [of "''categories''" "columns df"] cnt by simp
  have "select_cells (?base @ names) L (base_row df (rows df ! i) @ cs) =
      select_cells ?base L (base_row df (rows df ! i)) @ select_cells names L cs"
    using lb by (rule select_cells_append)
  also have "select_cells names L cs = []" using L(2) by (rule select_cells_none)
  also have "select_cells ?base L (base_row df (rows df ! i)) =
      select_cells (columns df) L (rows df ! i)"
    using L(1) by (rule select_cells_drop_cells)
  finally show ?thesis by simp
qed

lemma map_fst_nth_zip:
  "length xs = length ys \<Longrightarrow> \<forall>p\<in>set ps. p < length xs \<Longrightarrow>
     map fst (map (nth (zip xs ys)) ps) = map (nth xs) ps \<and>
     map snd (map (nth (zip xs ys)) ps) = map (nth ys) ps"
  by (induction ps) auto

lemma clean_data_dedup:
  assumes wf: "wf_frame df" and ok: "snd (clean_data df) = Inr out"
    and cf: "category_frame df = Inr cats"
    and m: "''message'' \<in> set (columns df)" and o: "''original'' \<in> set (columns df)"
    and nm: "''message'' \<notin> set (category_part df (columns out))"
    and no: "''original'' \<notin> set (category_part df (columns out))"
  shows "index out = map (nth (index df)) (first_of_key df)"
    and "rows out = map (\<lambda>i. base_row df (rows df ! i) @
            map (\<lambda>(l, vs). Num (vs ! i)) (drop_one_val_cols cats)) (first_of_key df)"
    and "\<forall>i<length (rows df). \<forall>L.
           ''categories'' \<notin> set L \<and> (\<forall>l\<in>set L. l \<notin> set (category_part df (columns out))) \<longrightarrow>
           select_cells (columns out) L (base_row df (rows df ! i) @
             map (\<lambda>(l, vs). Num (vs ! i)) (drop_one_val_cols cats)) =
           select_cells (columns df) L (rows df ! i)"
proof -
  let ?names = "map fst (drop_one_val_cols cats)"
  let ?base = "filter (\<lambda>c. c \<noteq> ''categories'') (columns df)"
  let ?g = "\<lambda>i. base_row df (rows df ! i) @
            map (\<lambda>(l, vs). Num (vs ! i)) (drop_one_val_cols cats)"
  let ?df2 = "concat_columns (drop_column ''categories'' df) (drop_one_val_cols cats)"
  let ?n = "length (rows df)"
  let ?L = "[''message'', ''original'']"
  note f = category_frame_facts [OF wf cf]
  note cols = clean_data_columns [OF ok cf]
  from clean_data_Inr [OF ok] cf have dd: "drop_duplicates ?L ?df2 = Inr out" by auto
  have c2: "columns ?df2 = ?base @ ?names" by (rule columns_concat_columns)
  have i2: "index ?df2 = index df" by (rule index_concat_columns)
  have r2: "rows ?df2 = map ?g [0..<?n]" by (rule rows_concat_columns)
  have li: "length (index df) = ?n" using wf by (simp add: wf_frame_def)
  have sel: "select_cells (columns out) L (?g i) = select_cells (columns df) L (rows df ! i)"
    if "i < ?n" "''categories'' \<notin> set L"
      "\<forall>l\<in>set L. l \<notin> set (category_part df (columns out))" for i L
    unfolding cols(1) using wf f(1) that(1,2) that(3) [unfolded cols(2)]
    by (rule select_cells_full_row)
  then show "\<forall>i<length (rows df). \<forall>L.
           ''categories'' \<notin> set L \<and> (\<forall>l\<in>set L. l \<notin> set (category_part df (columns out))) \<longrightarrow>
           select_cells (columns out) L (?g i) = select_cells (columns df) L (rows df ! i)"
    by blast
  have key: "select_cells (columns ?df2) ?L (?g i) = select_cells (columns df) ?L (rows df ! i)"
    if "i < ?n" for i
    using sel [OF that, of ?L] nm no unfolding cols(1) c2 by simp
  have lr: "length (rows df ! i) = length (columns df)" if "i < ?n" for i
    using wf that by (simp add: wf_frame_def list_all_length)
  have mb: "''message'' \<in> set ?base" "''original'' \<in> set ?base" using m o by simp_all
  have sub: "set ?L \<subseteq> set (columns ?df2)" using mb unfolding c2 by simp
  then have "''message'' \<in> set (columns ?df2)" by simp
  then have ne1: "columns ?df2 \<noteq> []" by force
  have ne2: "index ?df2 \<noteq> []" using f(2) li unfolding i2 by auto
  note ne = ne1 ne2
  let ?zs = "zip (index df) (map ?g [0..<?n])"
  let ?K = "\<lambda>(i, r). select_cells (columns ?df2) ?L r"
  let ?kept = "keep_first ?K [] ?zs"
  have out: "out = ?df2\<lparr>index := map fst ?kept, rows := map snd ?kept\<rparr>"
    using dd ne sub unfolding drop_duplicates_def Let_def i2 r2 by simp
  have lz: "length ?zs = ?n" using li by simp
  have K: "?K (?zs ! i) = select_cells (columns df) ?L (rows df ! i)" if "i < ?n" for i
    using that li key [OF that] by simp
  have "filter (\<lambda>i. ?K (?zs ! i) \<notin> set [] \<and> (\<forall>j<i. ?K (?zs ! j) \<noteq> ?K (?zs ! i))) [0..<length ?zs]
      = first_of_key df"
    unfolding first_of_key_alt lz
  proof (intro filter_cong refl)
    fix i assume "i \<in> set [0..<?n]"
    then have i: "i < ?n" by simp
    have "?K (?zs ! j) \<noteq> ?K (?zs ! i) \<longleftrightarrow>
        message_original df (rows df ! j) \<noteq> message_original df (rows df ! i)" if "j < i" for j
    proof -
      have j: "j < ?n" using that i by simp
      show ?thesis
        unfolding K [OF i] K [OF j]
        using key_eq_message_original [OF lr [OF j] lr [OF i]] by simp
    qed
    then show "(?K (?zs ! i) \<notin> set [] \<and> (\<forall>j<i. ?K (?zs ! j) \<noteq> ?K (?zs ! i))) \<longleftrightarrow>
        (\<forall>j<i. message_original df (rows df ! j) \<noteq> message_original df (rows df ! i))"
      by simp
  qed
  then have kept: "?kept = map (nth ?zs) (first_of_key df)"
    using keep_first_filter [of ?K "[]" ?zs] by simp
  have bound: "\<forall>p\<in>set (first_of_key df). p < length (index df)"
    using first_of_key_bound li by simp
  have lg: "length (index df) = length (map ?g [0..<?n])" using li by simp
  note z = map_fst_nth_zip [OF lg bound]
  show "index out = map (nth (index df)) (first_of_key df)"
    unfolding out kept using z by simp
  have "map snd ?kept = map (nth (map ?g [0..<?n])) (first_of_key df)"
    unfolding kept using z by simp
  also have "\<dots> = map ?g (first_of_key df)"
    using first_of_key_bound by (intro map_cong) auto
  finally show "rows out = map ?g (first_of_key df)"
    unfolding out by simp
qed

lemma first_of_key_iff:
  "i \<in> set (first_of_key df) \<longleftrightarrow>
     i < length (rows df) \<and>
     (\<forall>k<i. message_original df (rows df ! k) \<noteq> message_original df (rows df ! i))"
  by (auto simp: first_of_key_alt)

lemma label_of_position:
  assumes "distinct idx" "\<forall>p\<in>set ps. p < length idx" "j < length idx"
  shows "idx ! j \<in> set (map (nth idx) ps) \<longleftrightarrow> j \<in> set ps"
  using assms by (auto simp: nth_eq_iff_index_eq)

lemma message_original_out:
  assumes wf: "wf_frame df" and ok: "snd (clean_data df) = Inr out"
    and cf: "category_frame df = Inr cats"
    and m: "''message'' \<in> set (columns df)" and o: "''original'' \<in> set (columns df)"
    and nm: "''message'' \<notin> set (category_part df (columns out))"
    and no: "''original'' \<notin> set (category_part df (columns out))"
  shows "map (message_original out) (rows out) =
     map (\<lambda>i. message_original df (rows df ! i)) (first_of_key df)"
proof -
  note d = clean_data_dedup [OF assms]
  have "message_original out (base_row df (rows df ! i) @
            map (\<lambda>(l, vs). Num (vs ! i)) (drop_one_val_cols cats)) =
        message_original df (rows df ! i)" if "i \<in> set (first_of_key df)" for i
  proof -
    have i: "i < length (rows df)" using that by (rule first_of_key_bound)
    show ?thesis
      unfolding message_original_def
      using d(3) [rule_format, OF i, of "[''message'']"]
        d(3) [rule_format, OF i, of "[''original'']"] nm no
      by simp
  qed
  then show ?thesis unfolding d(2) by (simp add: comp_def)
qed

lemma category_cells_eq:
  "distinct (map fst cats) \<Longrightarrow>
     map (\<lambda>(l, vs). Num (vs ! i)) (drop_one_val_cols cats) = category_cells cats i"
  by (simp add: drop_one_val_cols_eq category_cells_def case_prod_beta)


lemma split_on_single: "split_on sep [c] = (if c = sep then [[], []] else [[c]])"
  by simp











section \<open>Properties of the transformer\<close>

lemma clean_data_ex_table: "clean_data ex_table = (ex_caller, Inr ex_cleaned)"
  by code_simp

lemma category_frame_ex_table:
  "category_frame ex_table =
     Inr [(''related'', [1, 0, 1]), (''request'', [0, 0, 1]), (''offer'', [1, 1, 1])]"
  by code_simp

lemma wf_ex_table: "wf_frame ex_table"
  by code_simp

text \<open>
  What decoding and clamping give. A token made of a name without hyphen, a hyphen and
  one digit decodes and clamps to 0 for the digit 0 and to 1 for every other digit.
  The entry of record \<open>i\<close> in the category column \<open>j\<close> is what decoding and
  clamping give for token \<open>j\<close> of the record. Every cell of a category column of the
  returned table is 0 or 1.
\<close>

lemma decoded_values_binary:
  "(CHR ''-'' \<notin> set name \<and> is_digit d \<longrightarrow>
      bind_err (decode_token (Some (name @ ''-'' @ [d]))) (\<lambda>n. Inr (clip 0 1 n))
        = Inr (if d = CHR ''0'' then 0 else 1)) \<and>
   (category_frame df = Inr cats \<and> j < length cats \<and>
      i < length (concat (column_values df ''categories'')) \<longrightarrow>
      bind_err (decode_token (Some (toks (concat (column_values df ''categories'') ! i) ! j)))
        (\<lambda>n. Inr (clip 0 1 n)) = Inr (snd (cats ! j) ! i)) \<and>
   (wf_frame df \<and> snd (clean_data df) = Inr out \<longrightarrow>
      list_all (\<lambda>r. list_all (\<lambda>c. c = Num 0 \<or> c = Num 1) (category_part df r)) (rows out))"
proof (intro conjI impI)
  assume a: "CHR ''-'' \<notin> set name \<and> is_digit d"
  then have dec: "decode_token (Some (name @ ''-'' @ [d])) = Inr (digit_val d)"
    using decode_token_name_digit [of name d] by simp
  have "clip 0 1 (digit_val d) = (if d = CHR ''0'' then 0 else 1)"
    using a digit_val_range [of d] digit_val_zero [of d] by (auto simp: clip01)
  then show "bind_err (decode_token (Some (name @ ''-'' @ [d]))) (\<lambda>n. Inr (clip 0 1 n))
        = Inr (if d = CHR ''0'' then 0 else 1)"
    unfolding dec by (simp add: bind_err_def)
next
  let ?series = "concat (column_values df ''categories'')"
  assume a: "category_frame df = Inr cats \<and> j < length cats \<and> i < length ?series"
  then obtain raw where raw: "decode_categories ?series = Inr raw"
    and cats: "cats = clip_columns raw"
    unfolding category_frame_Inr by blast
  have j: "j < length raw" using a cats by (simp add: clip_columns_def)
  have i: "i < length ?series" using a by simp
  from decode_categories_cells(5) [OF raw] j i
  have len: "length (snd (raw ! j)) = length ?series"
    and dec: "decode_token (Some (toks (?series ! i) ! j)) = Inr (snd (raw ! j) ! i)"
    by blast+
  have "snd (cats ! j) ! i = clip 0 1 (snd (raw ! j) ! i)"
    unfolding cats using j i len by (simp add: clip_columns_def case_prod_beta)
  then show "bind_err (decode_token (Some (toks (?series ! i) ! j)))
        (\<lambda>n. Inr (clip 0 1 n)) = Inr (snd (cats ! j) ! i)"
    unfolding dec by (simp add: bind_err_def)
next
  assume a: "wf_frame df \<and> snd (clean_data df) = Inr out"
  then have wf: "wf_frame df" and ok: "snd (clean_data df) = Inr out" by simp_all
  from clean_data_Inr [OF ok] obtain cats where cf: "category_frame df = Inr cats" by blast
  note f = category_frame_facts [OF wf cf]
  note s = clean_data_shape [OF wf ok cf]
  have "list_all (\<lambda>c. c = Num 0 \<or> c = Num 1) (category_part df r)" if "r \<in> set (rows out)" for r
  proof -
    from s(3) that obtain i where i: "i < length (rows df)"
      and r: "r = base_row df (rows df ! i) @
               map (\<lambda>(l, vs). Num (vs ! i)) (drop_one_val_cols cats)"
      by blast
    have cp: "category_part df r = map (\<lambda>(l, vs). Num (vs ! i)) (drop_one_val_cols cats)"
      unfolding r using wf f(1) i by (rule category_part_row)
    have "snd lv ! i = 0 \<or> snd lv ! i = 1" if "lv \<in> set (drop_one_val_cols cats)" for lv
    proof -
      have "lv \<in> set cats" using that drop_one_val_cols_subset by blast
      then have "length (snd lv) = length (rows df)" "\<forall>v\<in>set (snd lv). v = 0 \<or> v = 1"
        using f(4) by blast+
      then show ?thesis using i by (metis nth_mem)
    qed
    then have "\<forall>lv\<in>set (drop_one_val_cols cats).
        (case lv of (l, vs) \<Rightarrow> Num (vs ! i)) = Num 0 \<or>
        (case lv of (l, vs) \<Rightarrow> Num (vs ! i)) = Num 1"
      by (simp add: case_prod_beta)
    then show ?thesis
      unfolding cp by (simp add: list_all_iff)
  qed
  then show "list_all (\<lambda>r. list_all (\<lambda>c. c = Num 0 \<or> c = Num 1) (category_part df r)) (rows out)"
    unfolding list_all_iff [of _ "rows out"] by blast
qed

text \<open>
  Claim C1. The value of a token of the shape name-digit is not always its digit,
  clamped: line 57 takes the text between the first hyphen and the second, where
  the comment on line 56 speaks of the last character of the string. The two agree
  when the name has no hyphen. The token \<^verbatim>\<open>aid-related-1\<close> is a name, a hyphen
  and the digit 1; the text the code converts is \<^verbatim>\<open>related\<close>, the conversion
  raises \<^verbatim>\<open>ValueError\<close>, and the call on a well-formed table with this token
  returns no table, where the last character gives the value 1.
\<close>

theorem hyphenated_name_raises:
  "wf_frame ex_hyphen \<and>
   concat (column_values ex_hyphen ''categories'') =
     [Str ''aid-related-1'', Str ''aid-related-0''] \<and>
   name_digit ''aid-related-1'' \<and> name_digit ''aid-related-0'' \<and>
   token_value (Some ''aid-related-1'') = Some ''related'' \<and>
   decode_token (Some ''aid-related-1'') = Inl ValueError \<and>
   clean_data ex_hyphen = (ex_hyphen, Inl ValueError)"
  by code_simp

text \<open>
  Claim C3. The category columns of the returned table are the columns of the clamped
  category frame that hold more than one distinct value across all records, in their
  order; a column whose clamped values are the same in every record is not among them.
\<close>

theorem one_valued_columns_dropped:
  "category_frame df = Inr cats \<and> snd (clean_data df) = Inr out \<longrightarrow>
     category_part df (columns out) =
       map fst (filter (\<lambda>lv. card (set (snd lv)) \<noteq> 1) cats) \<and>
     (\<forall>lv\<in>set cats. card (set (snd lv)) = 1 \<longrightarrow>
        fst lv \<notin> set (category_part df (columns out)))"
proof (intro impI)
  assume a: "category_frame df = Inr cats \<and> snd (clean_data df) = Inr out"
  then have cf: "category_frame df = Inr cats" and ok: "snd (clean_data df) = Inr out"
    by simp_all
  have dist: "distinct (map fst cats)" using cf by (rule category_frame_distinct)
  have cp: "category_part df (columns out) =
       map fst (filter (\<lambda>lv. card (set (snd lv)) \<noteq> 1) cats)"
    using clean_data_columns(2) [OF ok cf] drop_one_val_cols_eq [OF dist] by simp
  have "fst lv \<notin> set (category_part df (columns out))"
    if "lv \<in> set cats" "card (set (snd lv)) = 1" for lv
  proof
    assume "fst lv \<in> set (category_part df (columns out))"
    then obtain lv' where lv': "lv' \<in> set cats" "card (set (snd lv')) \<noteq> 1" "fst lv' = fst lv"
      unfolding cp by auto
    then have "lv' = lv"
      using dist that(1) by (metis eq_key_imp_eq_value prod.collapse)
    with lv' that(2) show False by simp
  qed
  with cp show "category_part df (columns out) =
       map fst (filter (\<lambda>lv. card (set (snd lv)) \<noteq> 1) cats) \<and>
     (\<forall>lv\<in>set cats. card (set (snd lv)) = 1 \<longrightarrow>
        fst lv \<notin> set (category_part df (columns out)))"
    by blast
qed

theorem one_valued_columns_dropped_witness:
  "category_part ex_table (columns ex_cleaned) = [''related'', ''request''] \<and>
   ''offer'' \<notin> set (category_part ex_table (columns ex_cleaned))"
proof -
  let ?cats = "[(''related'', [1, 0, 1]), (''request'', [0, 0, 1]), (''offer'', [1, 1, 1 :: int])]"
  have h: "category_frame ex_table = Inr ?cats \<and> snd (clean_data ex_table) = Inr ex_cleaned"
    by (simp add: category_frame_ex_table clean_data_ex_table)
  have m: "(''offer'', [1, 1, 1 :: int]) \<in> set ?cats" by simp
  have c: "card (set [1, 1, 1 :: int]) = 1" by simp
  have f: "map fst (filter (\<lambda>lv. card (set (snd lv)) \<noteq> 1) ?cats) = [''related'', ''request'']"
    by code_simp
  from one_valued_columns_dropped [of ex_table ?cats ex_cleaned] h
  have r: "category_part ex_table (columns ex_cleaned) =
       map fst (filter (\<lambda>lv. card (set (snd lv)) \<noteq> 1) ?cats)"
    and n: "\<forall>lv\<in>set ?cats. card (set (snd lv)) = 1 \<longrightarrow>
        fst lv \<notin> set (category_part ex_table (columns ex_cleaned))"
    by blast+
  from n m c have "''offer'' \<notin> set (category_part ex_table (columns ex_cleaned))"
    by fastforce
  with r f show ?thesis by simp
qed

lemma first_category_cell:
  assumes wf: "wf_frame df" and cnt: "count_list (columns df) ''categories'' = 1"
    and ne: "rows df \<noteq> []"
  shows "select_cells (columns df) [''categories''] (hd (rows df)) =
           [hd (concat (column_values df ''categories''))]"
proof -
  from ne obtain r rs where rows: "rows df = r # rs" by (cases "rows df") auto
  have "length r = length (columns df)"
    using wf rows by (simp add: wf_frame_def)
  then have "length (select_cells (columns df) [''categories''] r) = 1"
    using cnt by (simp add: length_select_cells)
  then obtain x where x: "select_cells (columns df) [''categories''] r = [x]"
    by (cases "select_cells (columns df) [''categories''] r") auto
  then show ?thesis unfolding rows by (simp add: column_values_def rows)
qed

text \<open>
  Claim C4. Let \<open>cats\<close> be the decoded and clamped category frame of a well-formed
  table on which the call succeeds. Its labels are the names of the tokens of the first
  record's category string, distinct and in the order of that string, and its entry
  for record \<open>i\<close> and label \<open>j\<close> is the clamped value of token \<open>j\<close> of record
  \<open>i\<close>. The labels of the returned table are the labels of the input without
  \<^verbatim>\<open>categories\<close>, followed by the labels of the columns of \<open>cats\<close> with more than
  one value. The returned table has a row, every row has one cell per label, and
  every row is a record of the input without its categories cell, followed by the
  values of that record in these columns.
\<close>

theorem output_schema:
  "wf_frame df \<and> snd (clean_data df) = Inr out \<and> category_frame df = Inr cats \<longrightarrow>
     (\<exists>first. rows df \<noteq> [] \<and>
        select_cells (columns df) [''categories''] (hd (rows df)) = [Str first] \<and>
        map fst cats = token_names (Str first) \<and>
        distinct (token_names (Str first))) \<and>
     (\<forall>i<length (rows df). \<forall>j<length cats.
        bind_err (decode_token (Some (toks (concat (column_values df ''categories'') ! i) ! j)))
          (\<lambda>n. Inr (clip 0 1 n)) = Inr (snd (cats ! j) ! i)) \<and>
     columns out = filter (\<lambda>c. c \<noteq> ''categories'') (columns df) @
       map fst (filter (\<lambda>lv. card (set (snd lv)) \<noteq> 1) cats) \<and>
     wf_frame out \<and> rows out \<noteq> [] \<and>
     list_all (\<lambda>r. \<exists>i<length (rows df).
                  r = base_row df (rows df ! i) @ category_cells cats i) (rows out)"
proof
  assume a: "wf_frame df \<and> snd (clean_data df) = Inr out \<and> category_frame df = Inr cats"
  then have wf: "wf_frame df" and ok: "snd (clean_data df) = Inr out"
    and cf: "category_frame df = Inr cats" by simp_all
  let ?series = "concat (column_values df ''categories'')"
  from cf obtain raw where raw: "decode_categories ?series = Inr raw"
    and cats: "cats = clip_columns raw"
    unfolding category_frame_Inr by blast
  note f = category_frame_facts [OF wf cf]
  note c = decode_categories_cells [OF raw]
  note s = clean_data_shape [OF wf ok cf]
  have "is_Str (hd ?series)" using c(1,2) by (simp add: hd_conv_nth)
  then obtain first where first: "hd ?series = Str first"
    by (cases "hd ?series") (auto simp: is_Str_def)
  have names: "map fst cats = token_names (Str first)"
    using c(3) unfolding cats first token_names_def by simp
  have dist: "distinct (token_names (Str first))"
    using f(3) names by simp
  have cell: "select_cells (columns df) [''categories''] (hd (rows df)) = [Str first]"
    using first_category_cell [OF wf f(1,2)] first by simp
  have one: "\<exists>first. rows df \<noteq> [] \<and>
        select_cells (columns df) [''categories''] (hd (rows df)) = [Str first] \<and>
        map fst cats = token_names (Str first) \<and>
        distinct (token_names (Str first))"
    using f(2) cell names dist by blast
  have len: "length ?series = length (rows df)"
    using wf f(1) by (rule length_column)
  have two: "\<forall>i<length (rows df). \<forall>j<length cats.
        bind_err (decode_token (Some (toks (?series ! i) ! j)))
          (\<lambda>n. Inr (clip 0 1 n)) = Inr (snd (cats ! j) ! i)"
    using decoded_values_binary [of name d df cats _ _ out, THEN conjunct2, THEN conjunct1]
      cf len by simp
  have three: "columns out = filter (\<lambda>c. c \<noteq> ''categories'') (columns df) @
       map fst (filter (\<lambda>lv. card (set (snd lv)) \<noteq> 1) cats)"
    using s(1) drop_one_val_cols_eq [OF f(3)] by simp
  have four: "list_all (\<lambda>r. \<exists>i<length (rows df).
                  r = base_row df (rows df ! i) @ category_cells cats i) (rows out)"
    using s(3) unfolding list_all_iff category_cells_eq [OF f(3)] by blast
  from one two three s(5) s(4) four show
    "(\<exists>first. rows df \<noteq> [] \<and>
        select_cells (columns df) [''categories''] (hd (rows df)) = [Str first] \<and>
        map fst cats = token_names (Str first) \<and>
        distinct (token_names (Str first))) \<and>
     (\<forall>i<length (rows df). \<forall>j<length cats.
        bind_err (decode_token (Some (toks (concat (column_values df ''categories'') ! i) ! j)))
          (\<lambda>n. Inr (clip 0 1 n)) = Inr (snd (cats ! j) ! i)) \<and>
     columns out = filter (\<lambda>c. c \<noteq> ''categories'') (columns df) @
       map fst (filter (\<lambda>lv. card (set (snd lv)) \<noteq> 1) cats) \<and>
     wf_frame out \<and> rows out \<noteq> [] \<and>
     list_all (\<lambda>r. \<exists>i<length (rows df).
                  r = base_row df (rows df ! i) @ category_cells cats i) (rows out)"
    by blast
qed

theorem output_schema_witness:
  "token_names (Str ''related-1;request-0;offer-1'') = [''related'', ''request'', ''offer''] \<and>
   columns ex_cleaned = [''id'', ''message'', ''original'', ''genre''] @ [''related'', ''request''] \<and>
   wf_frame ex_cleaned \<and> rows ex_cleaned \<noteq> [] \<and>
   list_all (\<lambda>r. r \<in> set [[Num 1, Str ''help'', NaN, Str ''direct''] @ [Num 1, Num 0],
                            [Num 2, Str ''help'', NaN, Str ''direct''] @ [Num 0, Num 0],
                            [Num 3, Str ''water'', Str ''agua'', Str ''news''] @ [Num 1, Num 1]])
     (rows ex_cleaned)"
proof -
  let ?cats = "[(''related'', [1, 0, 1]), (''request'', [0, 0, 1]), (''offer'', [1, 1, 1 :: int])]"
  have h: "wf_frame ex_table \<and> snd (clean_data ex_table) = Inr ex_cleaned \<and>
      category_frame ex_table = Inr ?cats"
    by (simp add: wf_ex_table clean_data_ex_table category_frame_ex_table)
  from output_schema [of ex_table ex_cleaned ?cats] h obtain first where
    c: "select_cells (columns ex_table) [''categories''] (hd (rows ex_table)) = [Str first]"
    and n: "map fst ?cats = token_names (Str first)"
    and s: "columns ex_cleaned = filter (\<lambda>c. c \<noteq> ''categories'') (columns ex_table) @
       map fst (filter (\<lambda>lv. card (set (snd lv)) \<noteq> 1) ?cats)"
    and w: "wf_frame ex_cleaned" "rows ex_cleaned \<noteq> []"
    and r: "list_all (\<lambda>r. \<exists>i<length (rows ex_table).
         r = base_row ex_table (rows ex_table ! i) @ category_cells ?cats i) (rows ex_cleaned)"
    by blast
  have "select_cells (columns ex_table) [''categories''] (hd (rows ex_table)) =
      [Str ''related-1;request-0;offer-1'']"
    by code_simp
  with c have first: "first = ''related-1;request-0;offer-1''" by simp
  have b: "filter (\<lambda>c. c \<noteq> ''categories'') (columns ex_table) =
      [''id'', ''message'', ''original'', ''genre'']"
    by code_simp
  have p: "map fst (filter (\<lambda>lv. card (set (snd lv)) \<noteq> 1) ?cats) = [''related'', ''request'']"
    by code_simp
  have l: "length (rows ex_table) = 3" by code_simp
  have r0: "base_row ex_table (rows ex_table ! 0) @ category_cells ?cats 0 =
      [Num 1, Str ''help'', NaN, Str ''direct''] @ [Num 1, Num 0]" by code_simp
  have r1: "base_row ex_table (rows ex_table ! 1) @ category_cells ?cats 1 =
      [Num 2, Str ''help'', NaN, Str ''direct''] @ [Num 0, Num 0]" by code_simp
  have r2: "base_row ex_table (rows ex_table ! 2) @ category_cells ?cats 2 =
      [Num 3, Str ''water'', Str ''agua'', Str ''news''] @ [Num 1, Num 1]" by code_simp
  have "x \<in> set [[Num 1, Str ''help'', NaN, Str ''direct''] @ [Num 1, Num 0],
                            [Num 2, Str ''help'', NaN, Str ''direct''] @ [Num 0, Num 0],
                            [Num 3, Str ''water'', Str ''agua'', Str ''news''] @ [Num 1, Num 1]]"
    if "x \<in> set (rows ex_cleaned)" for x
  proof -
    from r that obtain i where i: "i < 3"
      and x: "x = base_row ex_table (rows ex_table ! i) @ category_cells ?cats i"
      unfolding list_all_iff l by blast
    from i have "i = 0 \<or> i = 1 \<or> i = 2" by arith
    then show ?thesis using x r0 r1 r2 by (elim disjE) simp_all
  qed
  then have rr: "list_all (\<lambda>r. r \<in> set [[Num 1, Str ''help'', NaN, Str ''direct''] @ [Num 1, Num 0],
                            [Num 2, Str ''help'', NaN, Str ''direct''] @ [Num 0, Num 0],
                            [Num 3, Str ''water'', Str ''agua'', Str ''news''] @ [Num 1, Num 1]])
     (rows ex_cleaned)"
    unfolding list_all_iff by blast
  from n [unfolded first] have nn: "token_names (Str ''related-1;request-0;offer-1'') =
      [''related'', ''request'', ''offer'']" by simp
  from nn s [unfolded b p] w rr show ?thesis by blast
qed

text \<open>
  Claim C5, as the code has it. Cleaning the table that \<^verbatim>\<open>clean_data\<close> returned is
  not a no-operation: it raises \<^verbatim>\<open>AttributeError\<close>, since that table has no
  column of strings labelled \<^verbatim>\<open>categories\<close>, and it leaves the table as it is.
\<close>

theorem clean_twice_raises:
  "wf_frame df \<and> snd (clean_data df) = Inr out \<longrightarrow> clean_data out = (out, Inl AttributeError)"
proof
  assume a: "wf_frame df \<and> snd (clean_data df) = Inr out"
  then have wf: "wf_frame df" and ok: "snd (clean_data df) = Inr out" by simp_all
  from clean_data_Inr [OF ok] obtain cats where cf: "category_frame df = Inr cats" by blast
  note f = category_frame_facts [OF wf cf]
  note s = clean_data_shape [OF wf ok cf]
  let ?base = "filter (\<lambda>c. c \<noteq> ''categories'') (columns df)"
  let ?names = "map fst (drop_one_val_cols cats)"
  let ?series = "concat (column_values out ''categories'')"
  have "category_frame out = Inl AttributeError"
  proof (cases "count_list (columns out) ''categories'' = 1")
    case False
    then show ?thesis by (simp add: category_frame_def getattr_column_def bind_err_def)
  next
    case True
    have len: "length ?series = length (rows out)"
      using s(5) True by (rule length_column)
    then have ne: "?series \<noteq> []" using s(4) by (metis length_0_conv)
    have num: "\<exists>n. x = Num n" if "x \<in> set ?series" for x
    proof -
      from that obtain r where r: "r \<in> set (rows out)"
        and x: "x \<in> set (select_cells (columns out) [''categories''] r)"
        by (auto simp: column_values_def)
      from s(3) r obtain i where i: "i < length (rows df)"
        and req: "r = base_row df (rows df ! i) @
               map (\<lambda>(l, vs). Num (vs ! i)) (drop_one_val_cols cats)"
        by blast
      have lb: "length (base_row df (rows df ! i)) = length ?base"
        using length_base_row [OF wf f(1), of "rows df ! i"] i s(2) by simp
      have "select_cells (columns out) [''categories''] r =
          select_cells ?base [''categories''] (base_row df (rows df ! i)) @
          select_cells ?names [''categories'']
            (map (\<lambda>(l, vs). Num (vs ! i)) (drop_one_val_cols cats))"
        unfolding s(1) req using lb by (rule select_cells_append)
      moreover have "select_cells ?base [''categories''] (base_row df (rows df ! i)) = []"
        by (rule select_cells_none) simp
      ultimately have "x \<in> set (map (\<lambda>(l, vs). Num (vs ! i)) (drop_one_val_cols cats))"
        using x select_cells_subset by fastforce
      then show ?thesis by auto
    qed
    have "\<not> is_Str x" if "x \<in> set ?series" for x
      using num [OF that] by (auto simp: is_Str_def)
    then have "\<not> list_ex is_Str ?series" unfolding list_ex_iff by blast
    moreover have "\<not> list_all is_NaN ?series"
    proof -
      from ne obtain x where x: "x \<in> set ?series" by (cases ?series) auto
      with num obtain n where "x = Num n" by blast
      then have "\<not> is_NaN x" by (simp add: is_NaN_def)
      with x show ?thesis by (auto simp: list_all_iff)
    qed
    ultimately have "str_accessor (column_dtype out ''categories'') ?series = Inl AttributeError"
      by (simp add: str_accessor_def)
    then show ?thesis
      using True by (simp add: category_frame_def getattr_column_def bind_err_def)
  qed
  then show "clean_data out = (out, Inl AttributeError)" by (rule clean_data_Inl)
qed

theorem clean_twice_raises_witness:
  "clean_data ex_cleaned = (ex_cleaned, Inl AttributeError)"
proof -
  have h: "wf_frame ex_table \<and> snd (clean_data ex_table) = Inr ex_cleaned"
    by (simp add: wf_ex_table clean_data_ex_table)
  from clean_twice_raises [of ex_table ex_cleaned] h show ?thesis by blast
qed

text \<open>
  The claim as stated, that a second call returns the same table, fails on the example
  table: the second call raises.
\<close>

theorem clean_twice_counterexample:
  "snd (clean_data ex_table) = Inr ex_cleaned \<and>
   snd (clean_data ex_cleaned) = Inl AttributeError \<and>
   snd (clean_data ex_cleaned) \<noteq> Inr ex_cleaned"
  by code_simp

text \<open>
  Claim C6, as the code has it. Line 73 drops the column \<^verbatim>\<open>categories\<close> from the
  frame of the caller in place. After a call that got as far as line 73 the caller's
  frame has lost that column; its row labels and all its other columns are as before.
  A call that raises earlier leaves the frame as it was. The returned table is
  another value.
\<close>

theorem caller_frame_after_clean:
  "fst (clean_data df) =
     (if isl (category_frame df) then df else drop_column ''categories'' df) \<and>
   index (fst (clean_data df)) = index df \<and>
   (label \<noteq> ''categories'' \<longrightarrow>
      column_values (fst (clean_data df)) label = column_values df label) \<and>
   (snd (clean_data df) = Inr out \<longrightarrow> ''categories'' \<notin> set (columns (fst (clean_data df))))"
proof -
  have eq: "fst (clean_data df) =
     (if isl (category_frame df) then df else drop_column ''categories'' df)"
    by (cases "category_frame df") (simp_all add: clean_data_def Let_def)
  have idx: "index (fst (clean_data df)) = index df"
    unfolding eq by (simp add: drop_column_def)
  have col: "column_values (fst (clean_data df)) label = column_values df label"
    if "label \<noteq> ''categories''"
    unfolding eq using that by (simp add: column_values_drop_column)
  have drop: "''categories'' \<notin> set (columns (fst (clean_data df)))"
    if "snd (clean_data df) = Inr out"
  proof -
    from clean_data_Inr [OF that]
    have "fst (clean_data df) = drop_column ''categories'' df" by blast
    then show ?thesis by (simp add: drop_column_def)
  qed
  from eq idx col drop show ?thesis by blast
qed

theorem caller_frame_after_clean_witness:
  "fst (clean_data ex_table) = drop_column ''categories'' ex_table \<and>
   index (fst (clean_data ex_table)) = [0, 1, 2] \<and>
   column_values (fst (clean_data ex_table)) ''message'' =
     [[Str ''help''], [Str ''help''], [Str ''water'']] \<and>
   ''categories'' \<notin> set (columns (fst (clean_data ex_table)))"
proof -
  have h1: "\<not> isl (category_frame ex_table)" by (simp add: category_frame_ex_table)
  have h2: "''message'' \<noteq> ''categories''" by simp
  have h3: "snd (clean_data ex_table) = Inr ex_cleaned" by (simp add: clean_data_ex_table)
  have e1: "index ex_table = [0, 1, 2]" by code_simp
  have e2: "column_values ex_table ''message'' = [[Str ''help''], [Str ''help''], [Str ''water'']]"
    by code_simp
  note t = caller_frame_after_clean [of ex_table "''message''" ex_cleaned]
  have a: "fst (clean_data ex_table) = drop_column ''categories'' ex_table"
    using t [THEN conjunct1] h1 by simp
  have b: "index (fst (clean_data ex_table)) = index ex_table"
    using t by blast
  have c: "column_values (fst (clean_data ex_table)) ''message'' =
      column_values ex_table ''message''"
    using t h2 by blast
  have d: "''categories'' \<notin> set (columns (fst (clean_data ex_table)))"
    using t h3 by blast
  from a b [unfolded e1] c [unfolded e2] d show ?thesis by blast
qed

text \<open>
  The claim as stated, that the caller's table is unchanged, fails on the example
  table: after the call it has no column \<^verbatim>\<open>categories\<close>.
\<close>

theorem caller_frame_counterexample:
  "fst (clean_data ex_table) = ex_caller \<and>
   fst (clean_data ex_table) \<noteq> ex_table \<and>
   ''categories'' \<in> set (columns ex_table) \<and>
   ''categories'' \<notin> set (columns (fst (clean_data ex_table)))"
  by code_simp

text \<open>
  Claim C2, as the code has it. Line 79 selects the key of the removal of duplicates
  by label, so a category column that is itself labelled \<^verbatim>\<open>message\<close> or
  \<^verbatim>\<open>original\<close> joins the key. Let the table have the columns \<^verbatim>\<open>message\<close>
  and \<^verbatim>\<open>original\<close>, and let no category column of the result carry one of these
  two labels. Then the rows of the result are, in the order of the input, the rows
  whose message and original occur in no earlier row, whatever their categories are,
  each without its categories cell and followed by its own category values: a row is
  in the result exactly when it is the first with its pair, and no two rows of the
  result have the same pair.
\<close>

theorem first_record_of_each_key_survives:
  "wf_frame df \<and> snd (clean_data df) = Inr out \<and> category_frame df = Inr cats \<and>
   ''message'' \<in> set (columns df) \<and> ''original'' \<in> set (columns df) \<and>
   ''message'' \<notin> set (category_part df (columns out)) \<and>
   ''original'' \<notin> set (category_part df (columns out)) \<longrightarrow>
     index out = map (nth (index df)) (first_of_key df) \<and>
     rows out =
       map (\<lambda>i. base_row df (rows df ! i) @ category_cells cats i) (first_of_key df) \<and>
     map (message_original out) (rows out) =
       map (\<lambda>i. message_original df (rows df ! i)) (first_of_key df) \<and>
     distinct (map (message_original out) (rows out)) \<and>
     (distinct (index df) \<longrightarrow>
        (\<forall>j<length (rows df).
           index df ! j \<in> set (index out) \<longleftrightarrow>
             (\<forall>i<j. message_original df (rows df ! i) \<noteq> message_original df (rows df ! j))))"
proof
  assume a: "wf_frame df \<and> snd (clean_data df) = Inr out \<and> category_frame df = Inr cats \<and>
   ''message'' \<in> set (columns df) \<and> ''original'' \<in> set (columns df) \<and>
   ''message'' \<notin> set (category_part df (columns out)) \<and>
   ''original'' \<notin> set (category_part df (columns out))"
  then have wf: "wf_frame df" and ok: "snd (clean_data df) = Inr out"
    and cf: "category_frame df = Inr cats"
    and m: "''message'' \<in> set (columns df)" and o: "''original'' \<in> set (columns df)"
    and nm: "''message'' \<notin> set (category_part df (columns out))"
    and no: "''original'' \<notin> set (category_part df (columns out))"
    by simp_all
  have idx: "index out = map (nth (index df)) (first_of_key df)"
    using wf ok cf m o nm no by (rule clean_data_dedup(1))
  have rws: "rows out =
       map (\<lambda>i. base_row df (rows df ! i) @ category_cells cats i) (first_of_key df)"
    using clean_data_dedup(2) [OF wf ok cf m o nm no]
    unfolding category_cells_eq [OF category_frame_distinct [OF cf]] .
  have mo: "map (message_original out) (rows out) =
       map (\<lambda>i. message_original df (rows df ! i)) (first_of_key df)"
    using wf ok cf m o nm no by (rule message_original_out)
  have dist: "distinct (map (message_original out) (rows out))"
    unfolding mo first_of_key_alt by (rule distinct_first_occurrences)
  have li: "length (index df) = length (rows df)" using wf by (simp add: wf_frame_def)
  have lab: "index df ! j \<in> set (index out) \<longleftrightarrow>
      (\<forall>i<j. message_original df (rows df ! i) \<noteq> message_original df (rows df ! j))"
    if "distinct (index df)" "j < length (rows df)" for j
  proof -
    have "\<forall>p\<in>set (first_of_key df). p < length (index df)"
      using first_of_key_bound li by simp
    then have "index df ! j \<in> set (index out) \<longleftrightarrow> j \<in> set (first_of_key df)"
      unfolding idx using that li by (intro label_of_position) simp_all
    then show ?thesis using that(2) by (simp add: first_of_key_iff)
  qed
  from idx rws mo dist lab show
    "index out = map (nth (index df)) (first_of_key df) \<and>
     rows out =
       map (\<lambda>i. base_row df (rows df ! i) @ category_cells cats i) (first_of_key df) \<and>
     map (message_original out) (rows out) =
       map (\<lambda>i. message_original df (rows df ! i)) (first_of_key df) \<and>
     distinct (map (message_original out) (rows out)) \<and>
     (distinct (index df) \<longrightarrow>
        (\<forall>j<length (rows df).
           index df ! j \<in> set (index out) \<longleftrightarrow>
             (\<forall>i<j. message_original df (rows df ! i) \<noteq> message_original df (rows df ! j))))"
    by blast
qed

theorem first_record_of_each_key_survives_witness:
  "index ex_cleaned = [0, 2] \<and>
   rows ex_cleaned =
     [[Num 1, Str ''help'', NaN, Str ''direct''] @ [Num 1, Num 0],
      [Num 3, Str ''water'', Str ''agua'', Str ''news''] @ [Num 1, Num 1]] \<and>
   map (message_original ex_cleaned) (rows ex_cleaned) =
     [([Str ''help''], [NaN]), ([Str ''water''], [Str ''agua''])] \<and>
   distinct (map (message_original ex_cleaned) (rows ex_cleaned))"
proof -
  let ?cats = "[(''related'', [1, 0, 1]), (''request'', [0, 0, 1]), (''offer'', [1, 1, 1 :: int])]"
  have h: "wf_frame ex_table \<and> snd (clean_data ex_table) = Inr ex_cleaned \<and>
     category_frame ex_table = Inr ?cats \<and>
     ''message'' \<in> set (columns ex_table) \<and> ''original'' \<in> set (columns ex_table) \<and>
     ''message'' \<notin> set (category_part ex_table (columns ex_cleaned)) \<and>
     ''original'' \<notin> set (category_part ex_table (columns ex_cleaned))"
    using wf_ex_table clean_data_ex_table category_frame_ex_table by (simp, code_simp)
  have f: "first_of_key ex_table = [0, 2]" by code_simp
  have e1: "map (nth (index ex_table)) [0, 2] = [0, 2]" by code_simp
  have e2: "map (\<lambda>i. message_original ex_table (rows ex_table ! i)) [0, 2] =
      [([Str ''help''], [NaN]), ([Str ''water''], [Str ''agua''])]"
    by code_simp
  have e3: "map (\<lambda>i. base_row ex_table (rows ex_table ! i) @ category_cells ?cats i) [0, 2] =
      [[Num 1, Str ''help'', NaN, Str ''direct''] @ [Num 1, Num 0],
       [Num 3, Str ''water'', Str ''agua'', Str ''news''] @ [Num 1, Num 1]]"
    by code_simp
  from first_record_of_each_key_survives [of ex_table ex_cleaned ?cats] h
  have a: "index ex_cleaned = map (nth (index ex_table)) (first_of_key ex_table)"
    and r: "rows ex_cleaned =
       map (\<lambda>i. base_row ex_table (rows ex_table ! i) @ category_cells ?cats i)
         (first_of_key ex_table)"
    and b: "map (message_original ex_cleaned) (rows ex_cleaned) =
       map (\<lambda>i. message_original ex_table (rows ex_table ! i)) (first_of_key ex_table)"
    and c: "distinct (map (message_original ex_cleaned) (rows ex_cleaned))"
    by blast+
  from a [unfolded f e1] r [unfolded f e3] b [unfolded f e2] c show ?thesis by blast
qed

text \<open>
  The claim as stated, for every table, fails on a table with a category named
  \<^verbatim>\<open>message\<close>: its two records have the same message and the same original, and
  both are in the result.
\<close>

theorem same_pair_both_survive_counterexample:
  "wf_frame ex_clash_message \<and>
   rows ex_clash_message =
     [[Str ''help'', Str ''aide'', Str ''message-1''],
      [Str ''help'', Str ''aide'', Str ''message-0'']] \<and>
   message_original ex_clash_message (rows ex_clash_message ! 0) =
     message_original ex_clash_message (rows ex_clash_message ! 1) \<and>
   snd (clean_data ex_clash_message) = Inr ex_clash_message_cleaned \<and>
   index ex_clash_message_cleaned = [0, 1] \<and>
   rows ex_clash_message_cleaned =
     [[Str ''help'', Str ''aide'', Num 1], [Str ''help'', Str ''aide'', Num 0]]"
  by code_simp

text \<open>
  Claim C10, as the code has it. A missing original is a value like any other for the
  removal of duplicates, under the conditions of C2: the table has the columns
  \<^verbatim>\<open>message\<close> and \<^verbatim>\<open>original\<close>, no category column of the result carries one of
  these labels, and the row labels differ from each other. Then of two rows with the
  same message and no original, the later one is not in the result, and the earlier
  one is when no row before it has the same message and no original.
\<close>

theorem null_original_is_deduplicated:
  "wf_frame df \<and> distinct (index df) \<and> snd (clean_data df) = Inr out \<and>
   ''message'' \<in> set (columns df) \<and> ''original'' \<in> set (columns df) \<and>
   ''message'' \<notin> set (category_part df (columns out)) \<and>
   ''original'' \<notin> set (category_part df (columns out)) \<and>
   i < j \<and> j < length (rows df) \<and>
   select_cells (columns df) [''message''] (rows df ! i) =
     select_cells (columns df) [''message''] (rows df ! j) \<and>
   select_cells (columns df) [''original''] (rows df ! i) = [NaN] \<and>
   select_cells (columns df) [''original''] (rows df ! j) = [NaN] \<longrightarrow>
     index df ! j \<notin> set (index out) \<and>
     ((\<forall>k<i. message_original df (rows df ! k) \<noteq> message_original df (rows df ! i)) \<longrightarrow>
        index df ! i \<in> set (index out))"
proof
  assume a: "wf_frame df \<and> distinct (index df) \<and> snd (clean_data df) = Inr out \<and>
   ''message'' \<in> set (columns df) \<and> ''original'' \<in> set (columns df) \<and>
   ''message'' \<notin> set (category_part df (columns out)) \<and>
   ''original'' \<notin> set (category_part df (columns out)) \<and>
   i < j \<and> j < length (rows df) \<and>
   select_cells (columns df) [''message''] (rows df ! i) =
     select_cells (columns df) [''message''] (rows df ! j) \<and>
   select_cells (columns df) [''original''] (rows df ! i) = [NaN] \<and>
   select_cells (columns df) [''original''] (rows df ! j) = [NaN]"
  then have wf: "wf_frame df" and di: "distinct (index df)"
    and ok: "snd (clean_data df) = Inr out"
    and m: "''message'' \<in> set (columns df)" and o: "''original'' \<in> set (columns df)"
    and nm: "''message'' \<notin> set (category_part df (columns out))"
    and no: "''original'' \<notin> set (category_part df (columns out))"
    and ij: "i < j" "j < length (rows df)"
    and same: "message_original df (rows df ! i) = message_original df (rows df ! j)"
    by (simp_all add: message_original_def)
  from clean_data_Inr [OF ok] obtain cats where cf: "category_frame df = Inr cats" by blast
  have idx: "index out = map (nth (index df)) (first_of_key df)"
    using wf ok cf m o nm no by (rule clean_data_dedup(1))
  have li: "length (index df) = length (rows df)" using wf by (simp add: wf_frame_def)
  have bound: "\<forall>p\<in>set (first_of_key df). p < length (index df)"
    using first_of_key_bound li by simp
  have pos: "index df ! k \<in> set (index out) \<longleftrightarrow> k \<in> set (first_of_key df)"
    if "k < length (rows df)" for k
    unfolding idx using di bound that li by (intro label_of_position) simp_all
  have "j \<notin> set (first_of_key df)"
    using ij same by (auto simp: first_of_key_iff)
  then have drop: "index df ! j \<notin> set (index out)" using pos [OF ij(2)] by simp
  have keep: "index df ! i \<in> set (index out)"
    if "\<forall>k<i. message_original df (rows df ! k) \<noteq> message_original df (rows df ! i)"
  proof -
    have i: "i < length (rows df)" using ij by simp
    then have "i \<in> set (first_of_key df)" using that by (simp add: first_of_key_iff)
    then show ?thesis using pos [OF i] by simp
  qed
  from drop keep show "index df ! j \<notin> set (index out) \<and>
     ((\<forall>k<i. message_original df (rows df ! k) \<noteq> message_original df (rows df ! i)) \<longrightarrow>
        index df ! i \<in> set (index out))"
    by blast
qed

theorem null_original_is_deduplicated_witness:
  "select_cells (columns ex_table) [''original''] (rows ex_table ! 0) = [NaN] \<and>
   select_cells (columns ex_table) [''original''] (rows ex_table ! 1) = [NaN] \<and>
   index ex_table ! 1 \<notin> set (index ex_cleaned) \<and>
   index ex_table ! 0 \<in> set (index ex_cleaned)"
proof -
  have h: "wf_frame ex_table \<and> distinct (index ex_table) \<and>
     snd (clean_data ex_table) = Inr ex_cleaned \<and>
     ''message'' \<in> set (columns ex_table) \<and> ''original'' \<in> set (columns ex_table) \<and>
     ''message'' \<notin> set (category_part ex_table (columns ex_cleaned)) \<and>
     ''original'' \<notin> set (category_part ex_table (columns ex_cleaned)) \<and>
     (0::nat) < 1 \<and> 1 < length (rows ex_table) \<and>
     select_cells (columns ex_table) [''message''] (rows ex_table ! 0) =
       select_cells (columns ex_table) [''message''] (rows ex_table ! 1) \<and>
     select_cells (columns ex_table) [''original''] (rows ex_table ! 0) = [NaN] \<and>
     select_cells (columns ex_table) [''original''] (rows ex_table ! 1) = [NaN]"
    using wf_ex_table clean_data_ex_table by (simp, code_simp)
  have first: "\<forall>k<(0::nat). message_original ex_table (rows ex_table ! k) \<noteq>
      message_original ex_table (rows ex_table ! 0)"
    by simp
  from null_original_is_deduplicated [of ex_table ex_cleaned 0 1] h first
  have "index ex_table ! 1 \<notin> set (index ex_cleaned)"
    and "index ex_table ! 0 \<in> set (index ex_cleaned)"
    by blast+
  with h show ?thesis by blast
qed

text \<open>
  The claim as stated, for every table, fails on a table with a category named
  \<^verbatim>\<open>original\<close>: its two records have the same message and no original, and both
  are in the result.
\<close>

theorem null_original_both_survive_counterexample:
  "wf_frame ex_clash_original \<and> distinct (index ex_clash_original) \<and>
   select_cells (columns ex_clash_original) [''message''] (rows ex_clash_original ! 0) =
     select_cells (columns ex_clash_original) [''message''] (rows ex_clash_original ! 1) \<and>
   select_cells (columns ex_clash_original) [''original''] (rows ex_clash_original ! 0) = [NaN] \<and>
   select_cells (columns ex_clash_original) [''original''] (rows ex_clash_original ! 1) = [NaN] \<and>
   snd (clean_data ex_clash_original) = Inr ex_clash_original_cleaned \<and>
   index ex_clash_original_cleaned = [0, 1] \<and>
   rows ex_clash_original_cleaned = [[Str ''help'', NaN, Num 1], [Str ''help'', NaN, Num 0]]"
  by code_simp





lemma concat_map_empty: "(\<forall>x\<in>set xs. f x = []) \<Longrightarrow> concat (map f xs) = []"
  by (induction xs) auto

text \<open>
  Claim C8, as the code has it. \<^verbatim>\<open>load_data\<close> has no check of the join: when both
  sources are read, share a column with compatible types and no row of the one has
  the key of a row of the other, it returns a table without rows and with all the
  columns, prints nothing and raises nothing.
\<close>

theorem load_without_overlap:
  "read_csv mp (outside w) = Inr messages \<and> read_csv cp (outside w) = Inr categories \<and>
   filter (\<lambda>c. c \<in> set (columns categories)) (columns messages) = common \<and> common \<noteq> [] \<and>
   \<not> list_ex (\<lambda>c. incompatible_keys (concat (column_values messages c))
                     (concat (column_values categories c))) common \<and>
   list_all (\<lambda>l. list_all (\<lambda>r. join_key common (columns categories) r \<noteq>
                                 join_key common (columns messages) l) (rows categories))
     (rows messages) \<longrightarrow>
     load_data read_csv mp cp w =
       (w\<lparr>calls := calls w @ [ReadCsv mp, ReadCsv cp]\<rparr>,
        Inr \<lparr>index = [],
             columns = columns messages @
               filter (\<lambda>c. c \<notin> set common) (columns categories),
             dtypes = dtypes messages @
               map snd (filter (\<lambda>(c, d). c \<notin> set common)
                          (zip (columns categories) (dtypes categories))),
             rows = []\<rparr>)"
proof
  assume a: "read_csv mp (outside w) = Inr messages \<and> read_csv cp (outside w) = Inr categories \<and>
   filter (\<lambda>c. c \<in> set (columns categories)) (columns messages) = common \<and> common \<noteq> [] \<and>
   \<not> list_ex (\<lambda>c. incompatible_keys (concat (column_values messages c))
                     (concat (column_values categories c))) common \<and>
   list_all (\<lambda>l. list_all (\<lambda>r. join_key common (columns categories) r \<noteq>
                                 join_key common (columns messages) l) (rows categories))
     (rows messages)"
  let ?other = "filter (\<lambda>c. c \<notin> set common) (columns categories)"
  let ?types = "dtypes messages @
      map snd (filter (\<lambda>(c, d). c \<notin> set common) (zip (columns categories) (dtypes categories)))"
  have none: "filter (\<lambda>r. join_key common (columns categories) r =
      join_key common (columns messages) l) (rows categories) = []"
    if "l \<in> set (rows messages)" for l
    using a that by (auto simp: list_all_iff filter_empty_conv)
  have "concat (map (\<lambda>l.
          map (\<lambda>r. l @ select_cells (columns categories) ?other r)
            (filter (\<lambda>r. join_key common (columns categories) r =
                          join_key common (columns messages) l) (rows categories)))
          (rows messages)) = []"
    by (rule concat_map_empty) (simp add: none)
  then have "merge messages categories =
      Inr \<lparr>index = [], columns = columns messages @ ?other, dtypes = ?types, rows = []\<rparr>"
    using a by (simp add: merge_def Let_def)
  then show "load_data read_csv mp cp w =
       (w\<lparr>calls := calls w @ [ReadCsv mp, ReadCsv cp]\<rparr>,
        Inr \<lparr>index = [], columns = columns messages @ ?other, dtypes = ?types, rows = []\<rparr>)"
    using a by (simp add: load_data_def Let_def)
qed

theorem load_without_overlap_witness:
  "load_data ex_read ''messages.csv'' ''categories.csv''
       \<lparr>stdout = [], calls = [], outside = 0\<rparr> =
     (\<lparr>stdout = [], calls = [ReadCsv ''messages.csv'', ReadCsv ''categories.csv''],
       outside = 0\<rparr>,
      Inr \<lparr>index = [],
           columns = columns ex_messages @ [''categories''],
           dtypes = dtypes ex_messages @ [ObjectD],
           rows = []\<rparr>)"
proof -
  let ?w = "\<lparr>stdout = [], calls = [], outside = 0::nat\<rparr>"
  have h: "ex_read ''messages.csv'' (outside ?w) = Inr ex_messages \<and>
     ex_read ''categories.csv'' (outside ?w) = Inr ex_categories \<and>
     filter (\<lambda>c. c \<in> set (columns ex_categories)) (columns ex_messages) = [''id''] \<and>
     [''id''] \<noteq> [] \<and>
     \<not> list_ex (\<lambda>c. incompatible_keys (concat (column_values ex_messages c))
                     (concat (column_values ex_categories c))) [''id''] \<and>
     list_all (\<lambda>l. list_all (\<lambda>r. join_key [''id''] (columns ex_categories) r \<noteq>
                                   join_key [''id''] (columns ex_messages) l)
                      (rows ex_categories))
       (rows ex_messages)"
    by code_simp
  have e: "filter (\<lambda>c. c \<notin> set [''id'']) (columns ex_categories) = [''categories'']"
    by code_simp
  have t: "map snd (filter (\<lambda>(c, d). c \<notin> set [''id''])
      (zip (columns ex_categories) (dtypes ex_categories))) = [ObjectD]"
    by code_simp
  from load_without_overlap [of ex_read "''messages.csv''" ?w ex_messages "''categories.csv''"
      ex_categories "[''id'']"] h
  have "load_data ex_read ''messages.csv'' ''categories.csv'' ?w =
       (?w\<lparr>calls := calls ?w @ [ReadCsv ''messages.csv'', ReadCsv ''categories.csv'']\<rparr>,
        Inr \<lparr>index = [],
             columns = columns ex_messages @
               filter (\<lambda>c. c \<notin> set [''id'']) (columns ex_categories),
             dtypes = dtypes ex_messages @
               map snd (filter (\<lambda>(c, d). c \<notin> set [''id''])
                          (zip (columns ex_categories) (dtypes ex_categories))),
             rows = []\<rparr>)"
    by blast
  then show ?thesis unfolding e t by simp
qed

text \<open>
  The claim as stated, that the loader fails or warns, fails on two sources with the
  identifiers 1, 2 and 7, 8: the loader returns the empty table and prints nothing.
\<close>

theorem load_without_overlap_counterexample:
  "load_data ex_read ''messages.csv'' ''categories.csv''
       \<lparr>stdout = [], calls = [], outside = 0\<rparr> =
     (\<lparr>stdout = [], calls = [ReadCsv ''messages.csv'', ReadCsv ''categories.csv''],
       outside = 0\<rparr>,
      Inr \<lparr>index = [],
           columns = [''id'', ''message'', ''original'', ''genre'', ''categories''],
           dtypes = [Int64D, ObjectD, ObjectD, ObjectD, ObjectD],
           rows = []\<rparr>)"
  by code_simp

section \<open>Properties of the entry point\<close>

text \<open>
  Claim C9. When \<^verbatim>\<open>sys.argv\<close> does not have exactly four entries (the program
  name and three arguments), \<^verbatim>\<open>main\<close> prints the usage message and does nothing
  else: it calls neither the reader nor the sink, leaves the outside as it was, and
  returns, so the process exits with status 0. This holds whatever the reader and the
  sink are.
\<close>

theorem main_usage_only:
  "length argv \<noteq> 4 \<Longrightarrow>
     main read_csv to_sql argv w = (w\<lparr>stdout := stdout w @ [usage_message]\<rparr>, Returned) \<and>
     calls (fst (main read_csv to_sql argv w)) = calls w \<and>
     outside (fst (main read_csv to_sql argv w)) = outside w \<and>
     exit_status (snd (main read_csv to_sql argv w)) = 0"
  by (simp add: main_def print_line_def exit_status_def)

theorem main_usage_only_witness:
  "main (\<lambda>path e. Inl FileNotFoundError) (\<lambda>df table db e. (e, Inr ()))
       [''process_data.py'', ''disaster_messages.csv'']
       \<lparr>stdout = [], calls = [], outside = (0::nat)\<rparr>
     = (\<lparr>stdout = [usage_message], calls = [], outside = 0\<rparr>, Returned) \<and>
   exit_status (snd (main (\<lambda>path e. Inl FileNotFoundError) (\<lambda>df table db e. (e, Inr ()))
       [''process_data.py'', ''disaster_messages.csv'']
       \<lparr>stdout = [], calls = [], outside = (0::nat)\<rparr>)) = 0"
proof -
  have len: "length [''process_data.py'', ''disaster_messages.csv''] \<noteq> 4"
    by simp
  from main_usage_only [OF len, where read_csv = "\<lambda>path e. Inl FileNotFoundError"
      and to_sql = "\<lambda>df table db e. (e, Inr ())"
      and w = "\<lparr>stdout = [], calls = [], outside = (0::nat)\<rparr>"]
  show ?thesis
    by (elim conjE) simp
qed

end
